theory Spec2Isabelle
  imports Main "HOL-Library.Sublist"
begin

chapter \<open>The model\<close>

section \<open>JavaScript string primitives used by the workspace service\<close>

text \<open>
  Strings are lists of 8-bit characters. \<open>lastIndexOf\<close> returns \<open>-1\<close> when the
  character does not occur; \<open>substring\<close> clamps both indices to the string and
  swaps them when they are out of order, as \<open>String.prototype.substring\<close> does.
\<close>

definition lastIndexOf :: "char \<Rightarrow> string \<Rightarrow> int" where
  "lastIndexOf c s =
     (if c \<in> set s then int (length s - 1 - length (takeWhile (\<lambda>d. d \<noteq> c) (rev s))) else - 1)"

definition substring :: "string \<Rightarrow> int \<Rightarrow> int \<Rightarrow> string" where
  "substring s a b =
     (let a' = min (nat a) (length s); b' = min (nat b) (length s)
      in take (max a' b' - min a' b') (drop (min a' b') s))"

text \<open>\<open>s.split('.').pop()\<close>: the text after the last dot, the whole string without one.\<close>

definition split_pop :: "char \<Rightarrow> string \<Rightarrow> string" where
  "split_pop c s = rev (takeWhile (\<lambda>d. d \<noteq> c) (rev s))"

text \<open>
  \<open>toLowerCase\<close> on the letters \<open>A\<close> to \<open>Z\<close>; other characters are kept. None of the
  extensions and words the code compares with holds a character outside ASCII.
\<close>

definition toLowerChar :: "char \<Rightarrow> char" where
  "toLowerChar c =
     (case map_of (zip ''ABCDEFGHIJKLMNOPQRSTUVWXYZ'' ''abcdefghijklmnopqrstuvwxyz'') c of
        Some d \<Rightarrow> d | None \<Rightarrow> c)"

definition toLowerCase :: "string \<Rightarrow> string" where
  "toLowerCase s = map toLowerChar s"

section \<open>The workspace tree (services/workspaceService)\<close>

datatype CompilerLanguage = C | Cpp | Java | Javascript | Python

datatype node =
    is_VFile: VFile (node_id: string) (name: string) (path: string)
      (language: CompilerLanguage) (content: string) (isSaved: bool)
  | is_VFolder: VFolder (node_id: string) (name: string) (path: string)
      (children: "node list")

text \<open>
  The service object: the in-memory tree, the text stored under the key
  \<open>vscode-workspace\<close> (kept as the tree it serialises), and whether
  \<open>localStorage.setItem\<close> throws (a full quota), which \<open>saveWorkspace\<close> catches.
\<close>

record WorkspaceService =
  workspace :: node
  localStorage :: "node option"
  quota_exceeded :: bool

datatype error = Error string

definition dquote :: string where
  "dquote = [CHR 0x22]"

definition nl :: string where
  "nl = [CHR 0x0A]"

definition crlf :: string where
  "crlf = [CHR 0x0D, CHR 0x0A]"

fun DEFAULT_CODE :: "CompilerLanguage \<Rightarrow> string" where
  "DEFAULT_CODE C =
     ''#include <stdio.h>'' @ nl @ nl @ ''int main() {'' @ nl @
     ''    printf('' @ dquote @ ''Hello, World!'' @ [CHR 0x5C] @ ''n'' @ dquote @ '');'' @ nl @
     ''    return 0;'' @ nl @ ''}''"
| "DEFAULT_CODE Cpp =
     ''#include <iostream>'' @ crlf @ ''using namespace std;'' @ crlf @ crlf @
     ''int main() {'' @ crlf @
     ''    cout << '' @ dquote @ ''Hello, World!'' @ dquote @ '' << endl;'' @ crlf @
     ''    return 0;'' @ crlf @ ''}''"
| "DEFAULT_CODE Java =
     ''public class Main {'' @ crlf @
     ''    public static void main(String[] args) {'' @ crlf @
     ''        System.out.println('' @ dquote @ ''Hello, World!'' @ dquote @ '');'' @ crlf @
     ''    }'' @ crlf @ ''}''"
| "DEFAULT_CODE Javascript = ''console.log('' @ dquote @ ''Hello, World!'' @ dquote @ '');''"
| "DEFAULT_CODE Python = ''print('' @ dquote @ ''Hello, World!'' @ dquote @ '')''"

definition getLanguageFromExtension :: "string \<Rightarrow> CompilerLanguage" where
  "getLanguageFromExtension filename =
     (let ext = toLowerCase (split_pop CHR ''.'' filename)
      in if ext = ''c'' then C
         else if ext = ''cpp'' \<or> ext = ''cc'' \<or> ext = ''cxx'' then Cpp
         else if ext = ''java'' then Java
         else if ext = ''js'' \<or> ext = ''mjs'' then Javascript
         else if ext = ''py'' then Python
         else Cpp)"

definition saveWorkspace :: "WorkspaceService \<Rightarrow> WorkspaceService" where
  "saveWorkspace st =
     (if quota_exceeded st then st else st\<lparr>localStorage := Some (workspace st)\<rparr>)"

text \<open>
  \<open>findItemByPath\<close>: the root itself when its path matches, otherwise the loop over
  the children, each child checked before its own subtree is searched. The root
  parameter is typed \<open>VFolder\<close> and the recursive call is guarded by
  \<open>'children' in child\<close>, so the equation for a file root is never exercised.
\<close>

fun findItemByPath :: "string \<Rightarrow> node \<Rightarrow> node option"
  and findInChildren :: "string \<Rightarrow> node list \<Rightarrow> node option" where
  "findItemByPath p (VFolder i n q cs) =
     (if q = p then Some (VFolder i n q cs) else findInChildren p cs)"
| "findItemByPath p (VFile i n q l c s) =
     (if q = p then Some (VFile i n q l c s) else None)"
| "findInChildren p [] = None"
| "findInChildren p (child # rest) =
     (if path child = p then Some child
      else (case (if is_VFolder child then findItemByPath p child else None) of
              Some found \<Rightarrow> Some found
            | None \<Rightarrow> findInChildren p rest))"

text \<open>
  The service mutates the object that \<open>findItemByPath\<close> returned. On a tree of
  values this is the same traversal, rebuilding the tree around the first node found.
\<close>

fun updateItemByPath :: "string \<Rightarrow> (node \<Rightarrow> node) \<Rightarrow> node \<Rightarrow> node option"
  and updateInChildren :: "string \<Rightarrow> (node \<Rightarrow> node) \<Rightarrow> node list \<Rightarrow> node list option" where
  "updateItemByPath p f (VFolder i n q cs) =
     (if q = p then Some (f (VFolder i n q cs))
      else map_option (VFolder i n q) (updateInChildren p f cs))"
| "updateItemByPath p f (VFile i n q l c s) =
     (if q = p then Some (f (VFile i n q l c s)) else None)"
| "updateInChildren p f [] = None"
| "updateInChildren p f (child # rest) =
     (if path child = p then Some (f child # rest)
      else (case (if is_VFolder child then updateItemByPath p f child else None) of
              Some child' \<Rightarrow> Some (child' # rest)
            | None \<Rightarrow> map_option ((#) child) (updateInChildren p f rest)))"

definition mutateItemByPath :: "string \<Rightarrow> (node \<Rightarrow> node) \<Rightarrow> node \<Rightarrow> node" where
  "mutateItemByPath p f root_node =
     (case updateItemByPath p f root_node of Some r \<Rightarrow> r | None \<Rightarrow> root_node)"

definition parentPathOf :: "string \<Rightarrow> string" where
  "parentPathOf p =
     (let pp = substring p 0 (lastIndexOf CHR ''/'' p) in if pp = [] then ''/'' else pp)"

definition findParentFolder :: "string \<Rightarrow> node \<Rightarrow> node option" where
  "findParentFolder p root_node =
     (case findItemByPath (parentPathOf p) root_node of
        Some parent \<Rightarrow> if is_VFolder parent then Some parent else None
      | None \<Rightarrow> None)"

definition childPath :: "string \<Rightarrow> string \<Rightarrow> string" where
  "childPath parentPath nm = (if parentPath = ''/'' then ''/'' @ nm else parentPath @ ''/'' @ nm)"

definition push :: "node \<Rightarrow> node \<Rightarrow> node" where
  "push new parent =
     (case parent of
        VFolder i n q cs \<Rightarrow> VFolder i n q (cs @ [new])
      | VFile i n q l c s \<Rightarrow> VFile i n q l c s)"

text \<open>The identifier that \<open>generateId()\<close> returns for the call is the parameter \<open>newId\<close>.\<close>

definition createFile ::
  "WorkspaceService \<Rightarrow> string \<Rightarrow> string \<Rightarrow> string \<Rightarrow> CompilerLanguage option
     \<Rightarrow> (error + node option) \<times> WorkspaceService" where
  "createFile st newId parentPath nm lang =
     (case findItemByPath parentPath (workspace st) of
        None \<Rightarrow> (Inr None, st)
      | Some parent \<Rightarrow>
          if \<not> is_VFolder parent then (Inr None, st)
          else if \<exists>child \<in> set (children parent). name child = nm
          then (Inl (Error (''File '' @ dquote @ nm @ dquote @ '' already exists in this folder'')), st)
          else
            let filePath = childPath parentPath nm;
                fileLanguage = (case lang of Some l \<Rightarrow> l | None \<Rightarrow> getLanguageFromExtension nm);
                newFile = VFile newId nm filePath fileLanguage (DEFAULT_CODE fileLanguage) False
            in (Inr (Some newFile),
                saveWorkspace
                  (st\<lparr>workspace := mutateItemByPath parentPath (push newFile) (workspace st)\<rparr>)))"

definition createFolder ::
  "WorkspaceService \<Rightarrow> string \<Rightarrow> string \<Rightarrow> string
     \<Rightarrow> (error + node option) \<times> WorkspaceService" where
  "createFolder st newId parentPath nm =
     (case findItemByPath parentPath (workspace st) of
        None \<Rightarrow> (Inr None, st)
      | Some parent \<Rightarrow>
          if \<not> is_VFolder parent then (Inr None, st)
          else if \<exists>child \<in> set (children parent). name child = nm
          then (Inl (Error (''Folder '' @ dquote @ nm @ dquote @ '' already exists in this folder'')), st)
          else
            let folderPath = childPath parentPath nm;
                newFolder = VFolder newId nm folderPath []
            in (Inr (Some newFolder),
                saveWorkspace
                  (st\<lparr>workspace := mutateItemByPath parentPath (push newFolder) (workspace st)\<rparr>)))"

definition readFile :: "WorkspaceService \<Rightarrow> string \<Rightarrow> node option" where
  "readFile st p =
     (case findItemByPath p (workspace st) of
        Some item \<Rightarrow> if \<not> is_VFolder item then Some item else None
      | None \<Rightarrow> None)"

definition setContentSaved :: "string \<Rightarrow> node \<Rightarrow> node" where
  "setContentSaved text file =
     (case file of
        VFile i n q l c s \<Rightarrow> VFile i n q l text True
      | VFolder i n q cs \<Rightarrow> VFolder i n q cs)"

definition writeFile :: "WorkspaceService \<Rightarrow> string \<Rightarrow> string \<Rightarrow> bool \<times> WorkspaceService" where
  "writeFile st p text =
     (case readFile st p of
        None \<Rightarrow> (False, st)
      | Some file \<Rightarrow>
          (True,
           saveWorkspace
             (st\<lparr>workspace := mutateItemByPath p (setContentSaved text) (workspace st)\<rparr>)))"

definition renameItem :: "string \<Rightarrow> string \<Rightarrow> node \<Rightarrow> node" where
  "renameItem newName newPath item =
     (case item of
        VFile i n q l c s \<Rightarrow> VFile i newName newPath (getLanguageFromExtension newName) c s
      | VFolder i n q cs \<Rightarrow> VFolder i newName newPath cs)"

definition rename :: "WorkspaceService \<Rightarrow> string \<Rightarrow> string \<Rightarrow> (error + bool) \<times> WorkspaceService" where
  "rename st p newName =
     (case findItemByPath p (workspace st) of
        None \<Rightarrow> (Inr False, st)
      | Some item \<Rightarrow>
          (case findParentFolder p (workspace st) of
             None \<Rightarrow> (Inr False, st)
           | Some parent \<Rightarrow>
               if \<exists>child \<in> set (children parent). name child = newName \<and> path child \<noteq> p
               then (Inl (Error (dquote @ newName @ dquote @ '' already exists in this folder'')), st)
               else
                 let newPath = substring p 0 (lastIndexOf CHR ''/'' p + 1) @ newName
                 in (Inr True,
                     saveWorkspace
                       (st\<lparr>workspace :=
                            mutateItemByPath p (renameItem newName newPath) (workspace st)\<rparr>))))"

fun findIndex :: "('a \<Rightarrow> bool) \<Rightarrow> 'a list \<Rightarrow> int" where
  "findIndex P [] = - 1"
| "findIndex P (x # xs) =
     (if P x then 0 else (let i = findIndex P xs in if i = - 1 then - 1 else i + 1))"

definition splice1 :: "int \<Rightarrow> node \<Rightarrow> node" where
  "splice1 index parent =
     (case parent of
        VFolder i n q cs \<Rightarrow> VFolder i n q (take (nat index) cs @ drop (nat index + 1) cs)
      | VFile i n q l c s \<Rightarrow> VFile i n q l c s)"

definition delete :: "WorkspaceService \<Rightarrow> string \<Rightarrow> bool \<times> WorkspaceService" where
  "delete st p =
     (case findParentFolder p (workspace st) of
        None \<Rightarrow> (False, st)
      | Some parent \<Rightarrow>
          let index = findIndex (\<lambda>child. path child = p) (children parent)
          in if index = - 1 then (False, st)
             else (True,
                   saveWorkspace
                     (st\<lparr>workspace :=
                          mutateItemByPath (parentPathOf p) (splice1 index) (workspace st)\<rparr>)))"

fun getAllFiles :: "node \<Rightarrow> node list"
  and getAllFilesLoop :: "node list \<Rightarrow> node list" where
  "getAllFiles (VFolder i n q cs) = getAllFilesLoop cs"
| "getAllFiles (VFile i n q l c s) = []"
| "getAllFilesLoop [] = []"
| "getAllFilesLoop (child # rest) =
     (if is_VFolder child then getAllFiles child else [child]) @ getAllFilesLoop rest"

text \<open>
  \<open>createDefaultWorkspace\<close>; the five identifiers are those that \<open>generateId()\<close>
  returns, in the order of the calls.
\<close>

definition createDefaultWorkspace :: "string \<Rightarrow> string \<Rightarrow> string \<Rightarrow> string \<Rightarrow> string \<Rightarrow> node" where
  "createDefaultWorkspace id1 id2 id3 id4 id5 =
     (let srcFolder = VFolder id1 ''src'' ''/src''
            [VFile id2 ''main.cpp'' ''/src/main.cpp'' Cpp (DEFAULT_CODE Cpp) True,
             VFile id3 ''main.py'' ''/src/main.py'' Python (DEFAULT_CODE Python) True];
          readmeFile = VFile id4 ''README.md'' ''/README.md'' Cpp
            (''# Welcome to Strike IDE'' @ nl @ nl @
             ''Start coding by selecting a file from the explorer or creating a new one!'') True
      in VFolder id5 ''workspace'' ''/'' [srcFolder, readmeFile])"

definition list_items :: "WorkspaceService \<Rightarrow> string \<Rightarrow> node list" where
  "list_items st p =
     (case findItemByPath p (workspace st) of
        Some folder \<Rightarrow> if is_VFolder folder then children folder else []
      | None \<Rightarrow> [])"

section \<open>Views of the tree\<close>

text \<open>
  \<open>flatten\<close> lists the nodes of a tree in the order \<open>findItemByPath\<close> visits them,
  each with its own fields (a folder without its children) and the number of its
  children. Two trees with the same list are the same tree, so a statement about
  the list of a tree after an operation is a statement about every node and field.
\<close>

fun flatten :: "node \<Rightarrow> (node \<times> nat) list"
  and flattenList :: "node list \<Rightarrow> (node \<times> nat) list" where
  "flatten (VFolder i n q cs) = (VFolder i n q [], length cs) # flattenList cs"
| "flatten (VFile i n q l c s) = [(VFile i n q l c s, 0)]"
| "flattenList [] = []"
| "flattenList (child # rest) = flatten child @ flattenList rest"

definition entry :: "node \<Rightarrow> node \<times> nat" where
  "entry x = (case x of VFolder i n q cs \<Rightarrow> (VFolder i n q [], length cs) | VFile i n q l c s \<Rightarrow> (VFile i n q l c s, 0))"

definition subnodes :: "node \<Rightarrow> node list" where
  "subnodes x = (case x of VFolder i n q cs \<Rightarrow> cs | VFile i n q l c s \<Rightarrow> [])"

text \<open>The files that \<open>getAllFiles\<close> lists for a node: those below a folder, a file itself.\<close>

definition filesOf :: "node \<Rightarrow> node list" where
  "filesOf d = (if is_VFolder d then getAllFiles d else [d])"

section \<open>Well-formed trees\<close>

text \<open>
  The invariant of the data model: the root has path \<open>/\<close>; the path of every other
  node is the path of its parent, a slash (none after the root's), and its name;
  names are not empty, hold no slash, and differ between siblings. \<open>nodes\<close> lists
  the nodes of a tree in traversal order.
\<close>

definition basePath :: "string \<Rightarrow> string" where
  "basePath pp = (if pp = ''/'' then ''/'' else pp @ ''/'')"

fun wfNode :: "string \<Rightarrow> node \<Rightarrow> bool"
  and wfList :: "string \<Rightarrow> node list \<Rightarrow> bool" where
  "wfNode pp (VFile i n q l c s) = (n \<noteq> [] \<and> CHR ''/'' \<notin> set n \<and> q = childPath pp n)"
| "wfNode pp (VFolder i n q cs) =
     (n \<noteq> [] \<and> CHR ''/'' \<notin> set n \<and> q = childPath pp n \<and> wfList q cs)"
| "wfList pp [] = True"
| "wfList pp (c # cs) = (wfNode pp c \<and> name c \<notin> set (map name cs) \<and> wfList pp cs)"

definition wfRoot :: "node \<Rightarrow> bool" where
  "wfRoot r = (case r of VFolder i n q cs \<Rightarrow> q = ''/'' \<and> wfList ''/'' cs
                       | VFile i n q l c s \<Rightarrow> False)"

fun nodes :: "node \<Rightarrow> node list"
  and nodesList :: "node list \<Rightarrow> node list" where
  "nodes (VFolder i n q cs) = VFolder i n q cs # nodesList cs"
| "nodes (VFile i n q l c s) = [VFile i n q l c s]"
| "nodesList [] = []"
| "nodesList (c # cs) = nodes c @ nodesList cs"

section \<open>Example workspaces\<close>

text \<open>The service as constructed on first load, with nothing stored yet.\<close>

definition freshService :: WorkspaceService where
  "freshService =
     \<lparr>workspace = createDefaultWorkspace ''id1'' ''id2'' ''id3'' ''id4'' ''id5'',
      localStorage = None, quota_exceeded = False\<rparr>"

text \<open>A workspace whose folder \<open>/src\<close> holds the file \<open>/src/a.py\<close>.\<close>

definition srcExample :: WorkspaceService where
  "srcExample =
     \<lparr>workspace = VFolder ''r'' ''workspace'' ''/''
        [VFolder ''s'' ''src'' ''/src'' [VFile ''a'' ''a.py'' ''/src/a.py'' Python ''pass'' True]],
      localStorage = None, quota_exceeded = False\<rparr>"

text \<open>The default workspace after \<open>createFile('/src', 'util.js')\<close>: three files below \<open>/src\<close>.\<close>

definition threeFileService :: WorkspaceService where
  "threeFileService = snd (createFile freshService ''id6'' ''/src'' ''util.js'' None)"

text \<open>The default workspace after \<open>createFile('/', 'notes.txt', 'python')\<close>: a language given explicitly.\<close>

definition overriddenService :: WorkspaceService where
  "overriddenService = snd (createFile freshService ''id6'' ''/'' ''notes.txt'' (Some Python))"

text \<open>
  The default workspace after \<open>createFolder('/src', 'sub')\<close>,
  \<open>createFile('/src/sub', 'a.c')\<close> and \<open>rename('/src', 'lib')\<close>: the folder with the
  path \<open>/src/sub\<close> lies below \<open>/lib\<close>.
\<close>

definition staleService :: WorkspaceService where
  "staleService =
     snd (rename
            (snd (createFile (snd (createFolder freshService ''id6'' ''/src'' ''sub''))
                    ''id7'' ''/src/sub'' ''a.c'' None))
            ''/src'' ''lib'')"

text \<open>
  That workspace after \<open>createFolder('/', 'src')\<close> and \<open>createFolder('/src', 'sub')\<close>:
  a second, empty folder with the path \<open>/src/sub\<close>.
\<close>

definition shadowService :: WorkspaceService where
  "shadowService =
     snd (createFolder (snd (createFolder staleService ''id8'' ''/'' ''src''))
            ''id9'' ''/src'' ''sub'')"

text \<open>
  The default workspace after \<open>createFolder('/', 'a/b')\<close> and
  \<open>createFile('/a/b', 'x.c')\<close>: a folder whose name holds a slash.
\<close>

definition slashService :: WorkspaceService where
  "slashService =
     snd (createFile (snd (createFolder freshService ''id6'' ''/'' ''a/b''))
            ''id7'' ''/a/b'' ''x.c'' None)"

section \<open>Closing a tab (the IDE component)\<close>

text \<open>
  The component state that \<open>handleTabClose\<close> reads and sets: the ordered tabs and the
  id of the active one. \<open>at_index\<close> is array indexing, \<open>undefined\<close> outside the array;
  \<open>nextTab?.id || null\<close> turns an empty id into no active tab.
\<close>

record TabState =
  openTabs :: "node list"
  activeTabId :: "string option"

definition at_index :: "'a list \<Rightarrow> int \<Rightarrow> 'a option" where
  "at_index xs i = (if 0 \<le> i \<and> nat i < length xs then Some (xs ! nat i) else None)"

definition handleTabClose :: "TabState \<Rightarrow> node \<Rightarrow> TabState" where
  "handleTabClose s fl =
     (let newTabs = filter (\<lambda>tab. node_id tab \<noteq> node_id fl) (openTabs s)
      in if activeTabId s = Some (node_id fl)
         then
           let currentIndex = findIndex (\<lambda>tab. node_id tab = node_id fl) (openTabs s);
               nextTab = (case at_index newTabs currentIndex of
                            Some t \<Rightarrow> Some t
                          | None \<Rightarrow> at_index newTabs (currentIndex - 1))
           in \<lparr>openTabs = newTabs,
               activeTabId = (case nextTab of
                                Some t \<Rightarrow> if node_id t = [] then None else Some (node_id t)
                              | None \<Rightarrow> None)\<rparr>
         else \<lparr>openTabs = newTabs, activeTabId = activeTabId s\<rparr>)"

section \<open>Creating an item from the explorer (FileExplorer)\<close>

text \<open>
  \<open>handleCreateItem\<close>: the result is the toast shown, the file handed to
  \<open>onFileSelect\<close> and the service afterwards. The explorer imports
  \<open>getLanguageFromExtension\<close> from \<open>utils/fileUtils\<close>, which has the same table as
  the private method of the service; one definition stands for both.
\<close>

definition isWhiteSpace :: "char \<Rightarrow> bool" where
  "isWhiteSpace c = (c \<in> set [CHR 0x09, CHR 0x0A, CHR 0x0B, CHR 0x0C, CHR 0x0D, CHR 0x20, CHR 0xA0])"

definition trim :: "string \<Rightarrow> string" where
  "trim s = rev (dropWhile isWhiteSpace (rev (dropWhile isWhiteSpace s)))"

datatype toast = ToastSuccess string | ToastError string

datatype itemType = FileItem | FolderItem

definition allowedExtensions :: "string list" where
  "allowedExtensions = [''c'', ''cpp'', ''cc'', ''cxx'', ''java'', ''js'', ''py'']"

definition extensionError :: string where
  "extensionError = ''Only C++, C, Java, Python, and JavaScript files are allowed''"

definition handleCreateItem ::
  "WorkspaceService \<Rightarrow> string \<Rightarrow> (string \<times> itemType) option \<Rightarrow> string
     \<Rightarrow> toast option \<times> node option \<times> WorkspaceService" where
  "handleCreateItem st newId newItemParent nm =
     (case newItemParent of
        None \<Rightarrow> (None, None, st)
      | Some (parentPath, ty) \<Rightarrow>
          if trim nm = [] then (None, None, st)
          else if ty = FileItem then
            let ext = toLowerCase (split_pop CHR ''.'' nm)
            in if ext = [] \<or> ext \<notin> set allowedExtensions
               then (Some (ToastError extensionError), None, st)
               else
                 (case createFile st newId parentPath nm (Some (getLanguageFromExtension nm)) of
                    (Inl (Error msg), st') \<Rightarrow> (Some (ToastError msg), None, st')
                  | (Inr None, st') \<Rightarrow> (None, None, st')
                  | (Inr (Some fl), st') \<Rightarrow>
                      (Some (ToastSuccess (''Created '' @ nm)), Some fl, st'))
          else
            (case createFolder st newId parentPath nm of
               (Inl (Error msg), st') \<Rightarrow> (Some (ToastError msg), None, st')
             | (Inr r, st') \<Rightarrow> (Some (ToastSuccess (''Created folder '' @ nm)), None, st')))"

section \<open>In-process execution of JavaScript (services/codeExecutor)\<close>

text \<open>
  \<open>console.log\<close> holds the native function, the capturing wrapper that
  \<open>executeJavaScript\<close> installs (which closes over the function it replaced), or
  something else the evaluated code assigned. What \<open>eval\<close> does to a source text is
  the parameter \<open>js_eval\<close>: the lines pushed to \<open>logs\<close>, whether it returned or
  threw (with the \<open>message\<close> of the thrown value, if it has one), and the
  environment it leaves. A thrown value without \<open>message\<close> makes
  \<open>errorMessage.includes\<close> fail inside the handler.
\<close>

datatype logSink = NativeLog | CaptureLog logSink | OtherLog nat

record JsEnv =
  console_log :: logSink

datatype completion = Normal | Throw "string option"

record ExecutionResult =
  output_text :: string
  error :: "string option"
  success :: bool

datatype jsError = TypeError

fun str_includes :: "string \<Rightarrow> string \<Rightarrow> bool" where
  "str_includes [] pat = (pat = [])"
| "str_includes (c # cs) pat = (prefix pat (c # cs) \<or> str_includes cs pat)"

fun replaceFirst :: "string \<Rightarrow> string \<Rightarrow> string \<Rightarrow> string" where
  "replaceFirst pat rep [] = (if pat = [] then rep else [])"
| "replaceFirst pat rep (c # cs) =
     (if prefix pat (c # cs) then rep @ drop (length pat) (c # cs)
      else c # replaceFirst pat rep cs)"

fun joinLines :: "string list \<Rightarrow> string" where
  "joinLines [] = []"
| "joinLines [l] = l"
| "joinLines (l # ls) = l @ nl @ joinLines ls"

definition cleanJsError :: "string \<Rightarrow> string" where
  "cleanJsError errorMessage =
     (if str_includes errorMessage ''missing ) after argument list''
      then ''Syntax Error: Missing closing parenthesis''
      else if str_includes errorMessage ''Unexpected token''
      then ''Syntax Error: Unexpected character or symbol''
      else if str_includes errorMessage ''is not defined''
      then replaceFirst ''ReferenceError: '' ''Error: '' errorMessage
      else errorMessage)"

definition executeJavaScript ::
  "(string \<Rightarrow> JsEnv \<Rightarrow> string list \<times> completion \<times> JsEnv) \<Rightarrow> string \<Rightarrow> JsEnv
     \<Rightarrow> (jsError + ExecutionResult) \<times> JsEnv" where
  "executeJavaScript js_eval code env =
     (let originalLog = console_log env;
          (logs, outcome, env') = js_eval code (env\<lparr>console_log := CaptureLog originalLog\<rparr>)
      in case outcome of
           Normal \<Rightarrow>
             (Inr \<lparr>output_text = (if joinLines logs = [] then ''Code executed successfully (no output)''
                              else joinLines logs),
                   error = None, success = True\<rparr>,
              env'\<lparr>console_log := originalLog\<rparr>)
         | Throw m \<Rightarrow>
             (let env'' = env'\<lparr>console_log := console_log env'\<rparr>
              in case m of
                   None \<Rightarrow> (Inl TypeError, env'')
                 | Some errorMessage \<Rightarrow>
                     (Inr \<lparr>output_text = cleanJsError errorMessage,
                           error = Some (cleanJsError errorMessage), success = False\<rparr>,
                      env'')))"

text \<open>
  An evaluator for the examples: calling an undefined function throws a
  \<open>ReferenceError\<close>, any other source returns without logging; neither touches
  \<open>console.log\<close>.
\<close>

definition throwingEval :: "string \<Rightarrow> JsEnv \<Rightarrow> string list \<times> completion \<times> JsEnv" where
  "throwingEval code env =
     (if code = ''undefinedFunction()''
      then ([], Throw (Some ''undefinedFunction is not defined''), env)
      else ([], Normal, env))"

section \<open>Regular expressions of the output sanitiser (services/codeExecutor)\<close>

text \<open>
  The regular expressions of \<open>cleanErrorMessage\<close> use character classes, greedy
  \<open>*\<close>, \<open>+\<close> and \<open>?\<close>, alternation, and \<open>^\<close> under the \<open>m\<close> flag. \<open>rx_match\<close> returns
  the states after a match in the order a backtracking matcher tries them: the
  first is the match JavaScript reports. A state is the character before the
  position (for \<open>^\<close>) and the rest of the input. \<open>replaceAll\<close> is
  \<open>String.prototype.replace\<close> with a \<open>g\<close> regular expression: left to right, and
  after an empty match one character is copied. Characters are 8-bit: of the
  white space and line terminators of JavaScript, those below 256.
\<close>

definition isSpace :: "char \<Rightarrow> bool" where
  "isSpace c = isWhiteSpace c"

definition isDigit :: "char \<Rightarrow> bool" where
  "isDigit c = (c \<in> set ''0123456789'')"

definition isAlphaUnderscore :: "char \<Rightarrow> bool" where
  "isAlphaUnderscore c =
     (c \<in> set ''abcdefghijklmnopqrstuvwxyzABCDEFGHIJKLMNOPQRSTUVWXYZ_'')"

definition isWord :: "char \<Rightarrow> bool" where
  "isWord c = (isAlphaUnderscore c \<or> isDigit c)"

definition isLineTerminator :: "char \<Rightarrow> bool" where
  "isLineTerminator c = (c = CHR 0x0A \<or> c = CHR 0x0D)"

datatype rx =
    Chr "char \<Rightarrow> bool"
  | Star "char \<Rightarrow> bool"
  | Plus "char \<Rightarrow> bool"
  | Seq rx rx
  | Alt rx rx
  | Opt rx
  | Eps
  | Bol

fun star_states :: "(char \<Rightarrow> bool) \<Rightarrow> char option \<Rightarrow> string \<Rightarrow> (char option \<times> string) list" where
  "star_states P pv [] = [(pv, [])]"
| "star_states P pv (c # cs) =
     (if P c then star_states P (Some c) cs @ [(pv, c # cs)] else [(pv, c # cs)])"

fun rx_match :: "rx \<Rightarrow> char option \<times> string \<Rightarrow> (char option \<times> string) list" where
  "rx_match (Chr P) (pv, s) =
     (case s of [] \<Rightarrow> [] | c # cs \<Rightarrow> if P c then [(Some c, cs)] else [])"
| "rx_match (Star P) (pv, s) = star_states P pv s"
| "rx_match (Plus P) (pv, s) =
     (case s of [] \<Rightarrow> [] | c # cs \<Rightarrow> if P c then star_states P (Some c) cs else [])"
| "rx_match (Seq a b) st = concat (map (rx_match b) (rx_match a st))"
| "rx_match (Alt a b) st = rx_match a st @ rx_match b st"
| "rx_match (Opt a) st = rx_match a st @ [st]"
| "rx_match Eps st = [st]"
| "rx_match Bol (pv, s) =
     (case pv of None \<Rightarrow> [(pv, s)]
      | Some c \<Rightarrow> if isLineTerminator c then [(pv, s)] else [])"

fun lit :: "string \<Rightarrow> rx" where
  "lit [] = Eps"
| "lit (c # cs) = Seq (Chr (\<lambda>x. x = c)) (lit cs)"

fun lit_i :: "string \<Rightarrow> rx" where
  "lit_i [] = Eps"
| "lit_i (c # cs) = Seq (Chr (\<lambda>x. toLowerChar x = toLowerChar c)) (lit_i cs)"

function replaceAll :: "rx \<Rightarrow> string \<Rightarrow> char option \<Rightarrow> string \<Rightarrow> string" where
  "replaceAll r rep pv [] = (case rx_match r (pv, []) of [] \<Rightarrow> [] | m # ms \<Rightarrow> rep)"
| "replaceAll r rep pv (c # cs) =
     (case rx_match r (pv, c # cs) of
        [] \<Rightarrow> c # replaceAll r rep (Some c) cs
      | m # ms \<Rightarrow>
          if length (snd m) < length (c # cs) then rep @ replaceAll r rep (fst m) (snd m)
          else rep @ c # replaceAll r rep (Some c) cs)"
  by pat_completeness auto
termination
  by (relation "measure (\<lambda>(r, rep, pv, s). length s)") auto

definition replace_g :: "rx \<Rightarrow> string \<Rightarrow> string \<Rightarrow> string" where
  "replace_g r rep s = replaceAll r rep None s"

definition rx_test_start :: "rx \<Rightarrow> string \<Rightarrow> bool" where
  "rx_test_start r s = (rx_match r (None, s) \<noteq> [])"

fun split_on :: "char \<Rightarrow> string \<Rightarrow> string list" where
  "split_on d [] = [[]]"
| "split_on d (c # cs) =
     (if c = d then [] # split_on d cs
      else (case split_on d cs of [] \<Rightarrow> [[c]] | l # ls \<Rightarrow> (c # l) # ls))"

definition startsWith :: "string \<Rightarrow> string \<Rightarrow> bool" where
  "startsWith s pat = prefix pat s"

definition notSpace :: "char \<Rightarrow> bool" where
  "notSpace c = (\<not> isSpace c)"

definition notNewline :: "char \<Rightarrow> bool" where
  "notNewline c = (c \<noteq> CHR 0x0A)"

definition rx_extension :: rx where
  "rx_extension = Alt (lit ''cpp'') (Alt (lit ''java'') (Alt (lit ''py'') (lit ''js'')))"

definition rx_line_col :: rx where
  "rx_line_col = Seq (lit '':'') (Seq (Plus isDigit) (Seq (lit '':'') (Seq (Plus isDigit) (lit '':''))))"

definition rx_gutter :: rx where
  "rx_gutter = Seq (Star isSpace) (Seq (Plus isDigit) (Seq (Star isSpace) (lit ''|'')))"

definition keepLine :: "string \<Rightarrow> bool" where
  "keepLine line =
     (if line = [] then False
      else if str_includes line ''template'' then False
      else if str_includes line ''deduction'' then False
      else if str_includes line ''derived from'' then False
      else if str_includes line ''candidate'' then False
      else if str_includes line ''chmod'' then False
      else if str_includes line ''cannot access'' then False
      else if str_includes line ''operator<<'' then False
      else if str_includes line ''nullptr_t'' then False
      else if str_includes line ''conversion'' then False
      else if startsWith line ''/'' then False
      else if rx_test_start rx_gutter line then False
      else if rx_test_start (Seq (Star isSpace) (lit ''^'')) line then False
      else True)"

definition cleanErrorMessage :: "string \<Rightarrow> string" where
  "cleanErrorMessage message =
     (if message = [] then []
      else
        (trim \<circ>
         replace_g (Seq (lit nl) (Seq (Star isSpace) (Plus (\<lambda>c. c = CHR 0x0A)))) nl \<circ>
         joinLines \<circ>
         filter keepLine \<circ>
         map trim \<circ>
         split_on CHR 0x0A \<circ>
         replace_g (Seq Bol (Seq rx_gutter (Seq (Star notNewline) (Seq (lit ''operator'') (Star notNewline))))) [] \<circ>
         replace_g (Seq (lit ''note:'') (Star notNewline)) [] \<circ>
         replace_g (Seq (lit ''/tmp/'') (Seq (Star notSpace) (lit '':''))) [] \<circ>
         replace_g (Seq (lit ''/usr/'') (Seq (Star notSpace) (lit '':''))) [] \<circ>
         replace_g (Seq (lit ''/'') (Seq (Star notSpace) (Seq (lit ''/include/'') (Seq (Star notSpace) (lit '':''))))) [] \<circ>
         replace_g (Seq (lit ''Line'') (Seq (Star isSpace) (Seq (Plus isDigit) (Seq (lit '':'') (Seq (Plus isDigit) (lit '':''))))))  [] \<circ>
         replace_g (Seq Bol rx_gutter) [] \<circ>
         replace_g (Seq (Chr isAlphaUnderscore) (Seq (Star isWord) (Seq (lit ''.'') (Seq rx_extension rx_line_col)))) [] \<circ>
         replace_g (Seq (lit ''main.'') (Seq rx_extension (Seq (Opt (Seq (lit ''.'') (Plus isWord))) rx_line_col))) [] \<circ>
         replace_g (Seq (lit ''a.out'') (Star notNewline)) [] \<circ>
         replace_g (Seq (lit ''cannot access'') (Star notNewline)) [] \<circ>
         replace_g (Seq (lit ''chmod:'') (Star notNewline)) [] \<circ>
         replace_g (lit_i ''piston'') [] \<circ>
         replace_g (Seq (lit ''/piston/'') (Plus notSpace)) [] \<circ>
         replace_g (lit ''&amp;'') ''&'' \<circ>
         replace_g (lit ''&quot;'') dquote \<circ>
         replace_g (lit ''&gt;'') ''>'' \<circ>
         replace_g (lit ''&lt;'') ''<'' \<circ>
         replace_g (lit ''&#39;'') [CHR 0x27]) message)"

definition decodeHtmlEntities :: "string \<Rightarrow> string" where
  "decodeHtmlEntities text =
     (replace_g (lit ''&amp;'') ''&'' \<circ>
      replace_g (lit ''&#39;'') [CHR 0x27] \<circ>
      replace_g (lit ''&quot;'') dquote \<circ>
      replace_g (lit ''&gt;'') ''>'' \<circ>
      replace_g (lit ''&lt;'') ''<'') text"

text \<open>
  The response of the execution service as \<open>executeCode\<close> reads it: the optional
  compile and run phases, each with its \<open>stdout\<close>, \<open>stderr\<close> and exit code. A text
  field that is absent or \<open>null\<close> is \<open>None\<close>, and \<open>truthy\<close> is the test JavaScript
  applies to such a field. The exit code is a number, \<open>null\<close> (a process that was
  killed) or absent, which the template literal prints as \<open>undefined\<close>.
  \<open>executeCode_response\<close> is \<open>executeCode\<close> from
  \<open>const result = await response.json()\<close> to its \<open>return\<close>; \<open>showCode\<close> prints the
  exit code as the template literal does.
\<close>

datatype exitCode = ExitCode int | ExitNull | ExitUndefined

record PhaseResult =
  stdout :: "string option"
  stderr :: "string option"
  code :: exitCode

record PistonResponse =
  compile :: "PhaseResult option"
  run :: "PhaseResult option"

definition truthy :: "string option \<Rightarrow> bool" where
  "truthy x = (case x of None \<Rightarrow> False | Some s \<Rightarrow> s \<noteq> [])"

function showNat :: "nat \<Rightarrow> string" where
  "showNat n = (if n < 10 then [''0123456789'' ! n] else showNat (n div 10) @ [''0123456789'' ! (n mod 10)])"
  by pat_completeness auto
termination
  by (relation "measure id") auto

definition showCode :: "exitCode \<Rightarrow> string" where
  "showCode c =
     (case c of
        ExitCode i \<Rightarrow> if i < 0 then ''-'' @ showNat (nat (- i)) else showNat (nat i)
      | ExitNull \<Rightarrow> ''null''
      | ExitUndefined \<Rightarrow> ''undefined'')"

definition executeCode_response :: "PistonResponse \<Rightarrow> ExecutionResult" where
  "executeCode_response result =
     (let (outputText, hasError) =
        (case (case compile result of
                 Some c \<Rightarrow> if truthy (stderr c) then stderr c else None
               | None \<Rightarrow> None) of
           Some compileStderr \<Rightarrow>
             (let cleanedError = cleanErrorMessage compileStderr
              in if cleanedError \<noteq> []
                 then
                   (let errorLines =
                          filter (\<lambda>line. str_includes line ''error:'') (split_on CHR 0x0A cleanedError);
                        mainError = (if length errorLines > 0 then hd errorLines else cleanedError)
                    in (''Compilation Error:'' @ nl @ mainError, True))
                 else (''Compilation failed - please check your code syntax'', True))
         | None \<Rightarrow>
             (case run result of
                Some r \<Rightarrow>
                  (let o1 = (if truthy (stdout r) then cleanErrorMessage (the (stdout r)) else []);
                       (o2, e2) = (if truthy (stderr r)
                                   then (o1 @ cleanErrorMessage (the (stderr r)), True)
                                   else (o1, False))
                   in if code r \<noteq> ExitCode 0 \<and> \<not> truthy (stderr r)
                      then (o2 @ nl @ ''Process exited with code '' @ showCode (code r), True)
                      else (o2, e2))
              | None \<Rightarrow> ([], False)));
          decoded = decodeHtmlEntities outputText
      in \<lparr>output_text = (if decoded = [] then ''No output'' else decoded),
          error = (if hasError then Some ''Execution failed'' else None),
          success = (\<not> hasError)\<rparr>)"

text \<open>
  Two texts a compile phase writes to \<open>stderr\<close>: the line that the service's
  script adds when the compiler produced no binary, and a report of \<open>g++\<close> on a
  missing semicolon followed by that line. \<open>compileFails\<close> is the response of a
  failed compile phase with a given \<open>stderr\<close>.
\<close>

definition squote :: string where
  "squote = [CHR 0x27]"

definition chmodNoise :: string where
  "chmodNoise =
     ''chmod: cannot access '' @ squote @ ''a.out'' @ squote @ '': No such file or directory'' @ nl"

definition missingSemicolon :: string where
  "missingSemicolon =
     ''main.cpp:5:35: error: expected '' @ squote @ '';'' @ squote @ '' before '' @
       squote @ ''return'' @ squote @ nl @
     ''    5 |     cout << 1'' @ nl @
     ''      |              ^'' @ nl @ chmodNoise"

definition compileFails :: "string \<Rightarrow> PistonResponse" where
  "compileFails e =
     \<lparr>compile = Some \<lparr>stdout = Some [], stderr = Some e, code = ExitCode 1\<rparr>,
      run = None\<rparr>"

chapter \<open>Properties\<close>

section \<open>The tree as a list of entries\<close>

lemma flatten_entry: "flatten x = entry x # flattenList (subnodes x)"
  by (cases x) (simp_all add: entry_def subnodes_def)

lemma path_entry [simp]: "path (fst (entry x)) = path x"
  by (cases x) (simp_all add: entry_def)

lemma find_none_flatten:
  "findItemByPath p t = None \<Longrightarrow> list_all (\<lambda>e. path (fst e) \<noteq> p) (flatten t)"
  "findInChildren p cs = None \<Longrightarrow> list_all (\<lambda>e. path (fst e) \<noteq> p) (flattenList cs)"
proof (induction p t and p cs rule: findItemByPath_findInChildren.induct)
  case (4 p child rest)
  then show ?case
    by (cases child) (auto split: if_splits option.splits)
qed (auto split: if_splits)

lemma update_none:
  "findItemByPath p t = None \<Longrightarrow> updateItemByPath p f t = None"
  "findInChildren p cs = None \<Longrightarrow> updateInChildren p f cs = None"
  by (induction p t and p cs rule: findItemByPath_findInChildren.induct)
     (auto split: if_splits option.splits)

lemma update_length:
  "updateInChildren p f cs = Some cs' \<Longrightarrow> length cs' = length cs"
  by (induction cs arbitrary: cs') (auto split: if_splits option.splits)

lemma update_flatten:
  assumes sh: "\<And>y. subnodes (f y) = subnodes y"
  shows
  "findItemByPath p t = Some x \<Longrightarrow>
      path x = p \<and>
      (\<exists>pre post t'. updateItemByPath p f t = Some t' \<and>
         flatten t = pre @ entry x # post \<and> flatten t' = pre @ entry (f x) # post \<and>
         list_all (\<lambda>e. path (fst e) \<noteq> p) pre)"
   "findInChildren p cs = Some x \<Longrightarrow>
      path x = p \<and>
      (\<exists>pre post cs'. updateInChildren p f cs = Some cs' \<and>
         flattenList cs = pre @ entry x # post \<and> flattenList cs' = pre @ entry (f x) # post \<and>
         list_all (\<lambda>e. path (fst e) \<noteq> p) pre)"
proof (induction p t and p cs arbitrary: x and x rule: findItemByPath_findInChildren.induct)
  case (1 p i n q cs)
  show ?case
  proof (cases "q = p")
    case True
    then have x: "x = VFolder i n q cs" using 1(2) by simp
    have a: "flatten (f x) = [] @ entry (f x) # flattenList cs"
      using sh[of x] x by (simp add: flatten_entry subnodes_def)
    have b: "flatten x = [] @ entry x # flattenList cs"
      using x by (simp add: entry_def)
    have c: "updateItemByPath p f (VFolder i n q cs) = Some (f x)"
      using True x by simp
    have d: "list_all (\<lambda>e. path (fst e) \<noteq> p) []" by simp
    have "path x = p" using x True by simp
    then show ?thesis using a b c d x by blast
  next
    case False
    with 1(2) have "findInChildren p cs = Some x" by simp
    with 1(1) False obtain pre post cs' where
        h: "path x = p" "updateInChildren p f cs = Some cs'"
           "flattenList cs = pre @ entry x # post" "flattenList cs' = pre @ entry (f x) # post"
           "list_all (\<lambda>e. path (fst e) \<noteq> p) pre"
        by blast
    have a: "flatten (VFolder i n q cs) = ((VFolder i n q [], length cs) # pre) @ entry x # post"
      using h by simp
    have b: "flatten (VFolder i n q cs') = ((VFolder i n q [], length cs) # pre) @ entry (f x) # post"
      using h update_length[OF h(2)] by simp
    have c: "list_all (\<lambda>e. path (fst e) \<noteq> p) ((VFolder i n q [], length cs) # pre)"
      using h False by simp
    have d: "updateItemByPath p f (VFolder i n q cs) = Some (VFolder i n q cs')"
      using h False by simp
    show ?thesis using a b c d h(1) by blast
  qed
next
  case (2 p i n q l c s)
  then have x: "x = VFile i n q l c s" "q = p" by (auto split: if_splits)
  have a: "flatten (f x) = [] @ entry (f x) # []"
    using sh[of x] x by (simp add: flatten_entry subnodes_def)
  have b: "flatten (VFile i n q l c s) = [] @ entry x # []"
    using x by (simp add: entry_def)
  have c: "updateItemByPath p f (VFile i n q l c s) = Some (f x)"
    using x by simp
  have d: "list_all (\<lambda>e. path (fst e) \<noteq> p) []" by simp
  have "path x = p" using x by simp
  then show ?case using a b c d by blast
next
  case (3 p)
  then show ?case by simp
next
  case (4 p child rest)
  show ?case
  proof (cases "path child = p")
    case True
    then have x: "x = child" using 4(3) by simp
    have a: "flattenList (f x # rest) = [] @ entry (f x) # (flattenList (subnodes x) @ flattenList rest)"
      using sh[of x] by (simp add: flatten_entry[of "f x"])
    have b: "flattenList (child # rest) = [] @ entry x # (flattenList (subnodes x) @ flattenList rest)"
      unfolding x by (simp add: flatten_entry[of child])
    have c: "updateInChildren p f (child # rest) = Some (f x # rest)"
      using True x by simp
    have d: "list_all (\<lambda>e. path (fst e) \<noteq> p) []" by simp
    have "path x = p" using x True by simp
    then show ?thesis using a b c d by blast
  next
    case np: False
    show ?thesis
    proof (cases "is_VFolder child \<and> findItemByPath p child \<noteq> None")
      case True
      then have fx: "findItemByPath p child = Some x" using 4(3) np by (auto split: option.splits)
      from 4(1)[OF np _ fx] True obtain pre post t' where
        h: "path x = p" "updateItemByPath p f child = Some t'"
           "flatten child = pre @ entry x # post" "flatten t' = pre @ entry (f x) # post"
           "list_all (\<lambda>e. path (fst e) \<noteq> p) pre"
        by blast
      have "updateInChildren p f (child # rest) = Some (t' # rest)"
        using np True h by simp
      moreover have "flattenList (child # rest) = pre @ entry x # (post @ flattenList rest)"
        using h by simp
      moreover have "flattenList (t' # rest) = pre @ entry (f x) # (post @ flattenList rest)"
        using h by simp
      ultimately show ?thesis using h(1,5) by blast
    next
      case False
      then have none: "(if is_VFolder child then findItemByPath p child else None) = None"
        by auto
      then have fr: "findInChildren p rest = Some x" using 4(3) np by simp
      from 4(2)[OF np none fr] obtain pre post cs' where
        h: "path x = p" "updateInChildren p f rest = Some cs'"
           "flattenList rest = pre @ entry x # post" "flattenList cs' = pre @ entry (f x) # post"
           "list_all (\<lambda>e. path (fst e) \<noteq> p) pre"
        by blast
      have un: "(if is_VFolder child then updateItemByPath p f child else None) = None"
        using none update_none(1)[of p child f] by (auto split: if_splits)
      have cl: "list_all (\<lambda>e. path (fst e) \<noteq> p) (flatten child)"
      proof (cases "is_VFolder child")
        case True
        then show ?thesis using none find_none_flatten(1)[of p child] by simp
      next
        case False
        then show ?thesis using np by (cases child) auto
      qed
      have "updateInChildren p f (child # rest) = Some (child # cs')"
        using np un h by simp
      moreover have "flattenList (child # rest) = (flatten child @ pre) @ entry x # post"
        using h by simp
      moreover have "flattenList (child # cs') = (flatten child @ pre) @ entry (f x) # post"
        using h by simp
      moreover have "list_all (\<lambda>e. path (fst e) \<noteq> p) (flatten child @ pre)"
        using cl h by simp
      ultimately show ?thesis using h(1) by blast
    qed
  qed
qed

text \<open>The list of entries determines the tree.\<close>

lemma flatten_inj_list:
  "(\<forall>c\<in>set cs. \<forall>t' r r'. flatten c @ r = flatten t' @ r' \<longrightarrow> c = t' \<and> r = r') \<Longrightarrow>
   length cs = length cs' \<Longrightarrow> flattenList cs @ r = flattenList cs' @ r' \<Longrightarrow>
   cs = cs' \<and> r = r'"
proof (induction cs arbitrary: cs')
  case Nil
  then show ?case by simp
next
  case (Cons c cs)
  obtain c' cs1 where cs': "cs' = c' # cs1" using Cons.prems(2) by (cases cs') auto
  have e: "flatten c @ (flattenList cs @ r) = flatten c' @ (flattenList cs1 @ r')"
    using Cons.prems(3) cs' by simp
  have "c \<in> set (c # cs)" by simp
  from Cons.prems(1)[rule_format, OF this e]
  have 1: "c = c' \<and> flattenList cs @ r = flattenList cs1 @ r'" .
  have 2: "\<forall>c\<in>set cs. \<forall>t' r r'. flatten c @ r = flatten t' @ r' \<longrightarrow> c = t' \<and> r = r'"
  proof (intro ballI allI impI)
    fix d t' r r'
    assume d: "d \<in> set cs" and fe: "flatten d @ r = flatten t' @ r'"
    have "d \<in> set (c # cs)" using d by simp
    from Cons.prems(1)[rule_format, OF this fe] show "d = t' \<and> r = r'" .
  qed
  have 3: "length cs = length cs1" using Cons.prems(2) cs' by simp
  from Cons.IH[OF 2 3] 1 have "cs = cs1 \<and> r = r'" by blast
  then show ?case using 1 cs' by blast
qed

lemma flatten_inj_aux:
  "flatten t @ r = flatten t' @ r' \<Longrightarrow> t = t' \<and> r = r'"
proof (induction t arbitrary: t' r r')
  case (VFile i n q l c s)
  show ?case
  proof (cases t')
    case (VFile i' n' q' l' c' s')
    then show ?thesis using VFile.prems by simp
  next
    case (VFolder i' n' q' cs')
    then show ?thesis using VFile.prems by simp
  qed
next
  case (VFolder i n q cs)
  show ?case
  proof (cases t')
    case (VFile i' n' q' l' c' s')
    then show ?thesis using VFolder.prems by simp
  next
    case F: (VFolder i' n' q' cs')
    have e: "(VFolder i n q [], length cs) # (flattenList cs @ r) =
             (VFolder i' n' q' [], length cs') # (flattenList cs' @ r')"
      using VFolder.prems unfolding F by (simp only: flatten.simps append_Cons)
    then have h: "i = i'" "n = n'" "q = q'" "length cs = length cs'"
      "flattenList cs @ r = flattenList cs' @ r'"
      by (simp_all only: list.inject prod.inject node.inject)
    have "\<forall>c\<in>set cs. \<forall>t' r r'. flatten c @ r = flatten t' @ r' \<longrightarrow> c = t' \<and> r = r'"
    proof (intro ballI allI impI)
      fix c t' r r'
      assume "c \<in> set cs" "flatten c @ r = flatten t' @ r'"
      then show "c = t' \<and> r = r'" by (rule VFolder.IH)
    qed
    from flatten_inj_list[OF this h(4,5)] have "cs = cs' \<and> r = r'" .
    then show ?thesis unfolding F using h(1,2,3) by simp
  qed
qed

lemma flatten_inj: "flatten t = flatten t' \<Longrightarrow> t = t'"
  using flatten_inj_aux[of t "[]" t' "[]"] by simp

section \<open>writeFile\<close>

lemma subnodes_setContentSaved: "subnodes (setContentSaved text y) = subnodes y"
  by (cases y) (simp_all add: setContentSaved_def subnodes_def)

text \<open>
  Claim C7. When \<open>readFile\<close> finds no file at the path (nothing there, or a folder),
  \<open>writeFile\<close> returns false and the service is unchanged. When it finds a file,
  that file is the first node on the path in traversal order, \<open>writeFile\<close> returns
  true, the entry of that file has the given content and \<open>isSaved = true\<close> with
  its id, name, path and language kept, every other entry of the tree is what it
  was, and the new tree is what is stored (when the store accepts the write).
\<close>

theorem writeFile_spec:
  "(readFile st p = None \<longrightarrow> writeFile st p text = (False, st)) \<and>
   (\<forall>fl. readFile st p = Some fl \<longrightarrow>
      is_VFile fl \<and> path fl = p \<and>
      fst (writeFile st p text) = True \<and>
      (\<exists>pre post.
         flatten (workspace st) = pre @ (fl, 0) # post \<and>
         list_all (\<lambda>e. path (fst e) \<noteq> p) pre \<and>
         flatten (workspace (snd (writeFile st p text))) =
           pre @ (VFile (node_id fl) (name fl) (path fl) (language fl) text True, 0) # post) \<and>
      localStorage (snd (writeFile st p text)) =
        (if quota_exceeded st then localStorage st
         else Some (workspace (snd (writeFile st p text)))) \<and>
      quota_exceeded (snd (writeFile st p text)) = quota_exceeded st)"
proof (intro conjI allI impI)
  assume "readFile st p = None"
  then show "writeFile st p text = (False, st)" by (simp add: writeFile_def)
next
  fix fl assume rf: "readFile st p = Some fl"
  then have fi: "findItemByPath p (workspace st) = Some fl" and isf: "is_VFile fl"
    by (auto simp: readFile_def split: option.splits if_splits intro: node.exhaust_disc)
  from update_flatten(1)[of "setContentSaved text", OF subnodes_setContentSaved fi]
  obtain pre post t' where
    h: "path fl = p" "updateItemByPath p (setContentSaved text) (workspace st) = Some t'"
       "flatten (workspace st) = pre @ entry fl # post"
       "flatten t' = pre @ entry (setContentSaved text fl) # post"
       "list_all (\<lambda>e. path (fst e) \<noteq> p) pre"
    by blast
  have ws: "workspace (snd (writeFile st p text)) = t'"
    using rf h(2) by (simp add: writeFile_def mutateItemByPath_def saveWorkspace_def)
  have e1: "entry fl = (fl, 0)"
    using isf by (cases fl) (simp_all add: entry_def)
  have e2: "entry (setContentSaved text fl) =
      (VFile (node_id fl) (name fl) (path fl) (language fl) text True, 0)"
    using isf by (cases fl) (simp_all add: entry_def setContentSaved_def)
  show "is_VFile fl" by (rule isf)
  show "path fl = p" by (rule h(1))
  show "fst (writeFile st p text) = True" using rf by (simp add: writeFile_def)
  show "\<exists>pre post.
         flatten (workspace st) = pre @ (fl, 0) # post \<and>
         list_all (\<lambda>e. path (fst e) \<noteq> p) pre \<and>
         flatten (workspace (snd (writeFile st p text))) =
           pre @ (VFile (node_id fl) (name fl) (path fl) (language fl) text True, 0) # post"
    using h(3,4,5) e1 e2 ws by auto
  show "localStorage (snd (writeFile st p text)) =
        (if quota_exceeded st then localStorage st
         else Some (workspace (snd (writeFile st p text))))"
    using rf by (simp add: writeFile_def saveWorkspace_def)
  show "quota_exceeded (snd (writeFile st p text)) = quota_exceeded st"
    using rf by (simp add: writeFile_def saveWorkspace_def)
qed

theorem writeFile_spec_witness:
  "readFile freshService ''/src/main.py'' =
     Some (VFile ''id3'' ''main.py'' ''/src/main.py'' Python (DEFAULT_CODE Python) True) \<and>
   fst (writeFile freshService ''/src/main.py'' ''pass'') = True \<and>
   localStorage (snd (writeFile freshService ''/src/main.py'' ''pass'')) =
     Some (workspace (snd (writeFile freshService ''/src/main.py'' ''pass''))) \<and>
   readFile freshService ''/src'' = None \<and>
   writeFile freshService ''/src'' ''pass'' = (False, freshService)"
proof -
  have r1: "readFile freshService ''/src/main.py'' =
     Some (VFile ''id3'' ''main.py'' ''/src/main.py'' Python (DEFAULT_CODE Python) True)"
    by (simp add: freshService_def createDefaultWorkspace_def readFile_def)
  have r2: "readFile freshService ''/src'' = None"
    by (simp add: freshService_def createDefaultWorkspace_def readFile_def)
  have q: "\<not> quota_exceeded freshService"
    by (simp add: freshService_def)
  from writeFile_spec[of freshService "''/src/main.py''" "''pass''"] r1 q
  have a: "fst (writeFile freshService ''/src/main.py'' ''pass'') = True"
    and b: "localStorage (snd (writeFile freshService ''/src/main.py'' ''pass'')) =
     Some (workspace (snd (writeFile freshService ''/src/main.py'' ''pass'')))"
    by presburger+
  from writeFile_spec[of freshService "''/src''" "''pass''"] r2
  have c: "writeFile freshService ''/src'' ''pass'' = (False, freshService)"
    by blast
  from r1 a b r2 c show ?thesis by blast
qed

section \<open>delete\<close>

lemma getAllFilesLoop_append:
  "getAllFilesLoop (xs @ ys) = getAllFilesLoop xs @ getAllFilesLoop ys"
  by (induction xs) simp_all

lemma findIndex_found:
  "findIndex P xs \<noteq> - 1 \<Longrightarrow>
     0 \<le> findIndex P xs \<and> nat (findIndex P xs) < length xs \<and> P (xs ! nat (findIndex P xs))"
proof (induction xs)
  case Nil
  then show ?case by simp
next
  case (Cons a xs)
  then show ?case
    by (auto simp: Let_def nat_add_distrib split: if_splits)
qed

lemma update_files:
  assumes fo: "\<And>y. is_VFolder y \<Longrightarrow> is_VFolder (f y)"
  shows
  "findItemByPath p t = Some x \<Longrightarrow> is_VFolder x \<Longrightarrow>
      (\<exists>pre post t'. updateItemByPath p f t = Some t' \<and>
         getAllFiles t = pre @ getAllFiles x @ post \<and>
         getAllFiles t' = pre @ getAllFiles (f x) @ post)"
  "findInChildren p cs = Some x \<Longrightarrow> is_VFolder x \<Longrightarrow>
      (\<exists>pre post cs'. updateInChildren p f cs = Some cs' \<and>
         getAllFilesLoop cs = pre @ getAllFiles x @ post \<and>
         getAllFilesLoop cs' = pre @ getAllFiles (f x) @ post)"
proof (induction p t and p cs arbitrary: x and x rule: findItemByPath_findInChildren.induct)
  case (1 p i n q cs)
  show ?case
  proof (cases "q = p")
    case True
    then have x: "x = VFolder i n q cs" using 1(2) by simp
    have "updateItemByPath p f (VFolder i n q cs) = Some (f x)" using True x by simp
    moreover have "getAllFiles (VFolder i n q cs) = [] @ getAllFiles x @ []" using x by simp
    moreover have "getAllFiles (f x) = [] @ getAllFiles (f x) @ []" by simp
    ultimately show ?thesis by blast
  next
    case False
    with 1(2) have "findInChildren p cs = Some x" by simp
    from 1(1)[OF False this 1(3)] obtain pre post cs' where
      h: "updateInChildren p f cs = Some cs'" "getAllFilesLoop cs = pre @ getAllFiles x @ post"
         "getAllFilesLoop cs' = pre @ getAllFiles (f x) @ post" by blast
    have "updateItemByPath p f (VFolder i n q cs) = Some (VFolder i n q cs')"
      using False h by simp
    moreover have "getAllFiles (VFolder i n q cs) = pre @ getAllFiles x @ post" using h by simp
    moreover have "getAllFiles (VFolder i n q cs') = pre @ getAllFiles (f x) @ post" using h by simp
    ultimately show ?thesis by blast
  qed
next
  case (2 p i n q l c s)
  then show ?case by (auto split: if_splits)
next
  case (3 p)
  then show ?case by simp
next
  case (4 p child rest)
  show ?case
  proof (cases "path child = p")
    case True
    then have x: "child = x" using 4(3) by simp
    have "updateInChildren p f (child # rest) = Some (f x # rest)" using True x by simp
    moreover have "getAllFilesLoop (child # rest) = [] @ getAllFiles x @ getAllFilesLoop rest"
      using x 4(4) by simp
    moreover have "getAllFilesLoop (f x # rest) = [] @ getAllFiles (f x) @ getAllFilesLoop rest"
      using fo[OF 4(4)] by simp
    ultimately show ?thesis by blast
  next
    case np: False
    show ?thesis
    proof (cases "is_VFolder child \<and> findItemByPath p child \<noteq> None")
      case True
      then have fx: "findItemByPath p child = Some x" using 4(3) np by (auto split: option.splits)
      from 4(1)[OF np _ fx 4(4)] True obtain pre post t' where
        h: "updateItemByPath p f child = Some t'" "getAllFiles child = pre @ getAllFiles x @ post"
           "getAllFiles t' = pre @ getAllFiles (f x) @ post" by blast
      have ft: "is_VFolder t'" using h(1) True np
        by (cases child) (auto split: if_splits)
      have "updateInChildren p f (child # rest) = Some (t' # rest)" using np True h by simp
      moreover have "getAllFilesLoop (child # rest) = pre @ getAllFiles x @ (post @ getAllFilesLoop rest)"
        using h True by simp
      moreover have "getAllFilesLoop (t' # rest) = pre @ getAllFiles (f x) @ (post @ getAllFilesLoop rest)"
        using h ft by simp
      ultimately show ?thesis by blast
    next
      case False
      then have none: "(if is_VFolder child then findItemByPath p child else None) = None"
        by auto
      then have fr: "findInChildren p rest = Some x" using 4(3) np by simp
      from 4(2)[OF np none fr 4(4)] obtain pre post cs' where
        h: "updateInChildren p f rest = Some cs'" "getAllFilesLoop rest = pre @ getAllFiles x @ post"
           "getAllFilesLoop cs' = pre @ getAllFiles (f x) @ post" by blast
      have un: "(if is_VFolder child then updateItemByPath p f child else None) = None"
        using none update_none(1)[of p child f] by (auto split: if_splits)
      define hd_files where "hd_files = (if is_VFolder child then getAllFiles child else [child])"
      have "updateInChildren p f (child # rest) = Some (child # cs')" using np un h by simp
      moreover have "getAllFilesLoop (child # rest) = (hd_files @ pre) @ getAllFiles x @ post"
        using h by (simp add: hd_files_def)
      moreover have "getAllFilesLoop (child # cs') = (hd_files @ pre) @ getAllFiles (f x) @ post"
        using h by (simp add: hd_files_def)
      ultimately show ?thesis by blast
    qed
  qed
qed

lemma delete_removes_child:
  "fst (delete st p) = True \<Longrightarrow>
     \<exists>parent d pre post.
        findParentFolder p (workspace st) = Some parent \<and> d \<in> set (children parent) \<and>
        path d = p \<and>
        getAllFiles (workspace st) = pre @ filesOf d @ post \<and>
        getAllFiles (workspace (snd (delete st p))) = pre @ post"
proof -
  assume ok: "fst (delete st p) = True"
  then obtain parent where par: "findParentFolder p (workspace st) = Some parent"
    by (auto simp: delete_def split: option.splits)
  define index where "index = findIndex (\<lambda>child. path child = p) (children parent)"
  have idx: "index \<noteq> - 1" using ok par by (auto simp: delete_def Let_def index_def split: if_splits)
  have fi: "findItemByPath (parentPathOf p) (workspace st) = Some parent" and pf: "is_VFolder parent"
    using par by (auto simp: findParentFolder_def split: option.splits if_splits)
  define d where "d = children parent ! nat index"
  from findIndex_found[of "\<lambda>child. path child = p" "children parent"] idx
  have i: "nat index < length (children parent)" "path d = p"
    by (auto simp: index_def d_def)
  have dmem: "d \<in> set (children parent)" using i by (simp add: d_def)
  have split: "children parent = take (nat index) (children parent) @ d # drop (nat index + 1) (children parent)"
    using i(1) by (simp add: d_def id_take_nth_drop)
  have fo: "\<And>y. is_VFolder y \<Longrightarrow> is_VFolder (splice1 index y)"
    by (auto simp: splice1_def split: node.splits)
  from update_files(1)[of "splice1 index", OF fo fi pf] obtain pre post t' where
    h: "updateItemByPath (parentPathOf p) (splice1 index) (workspace st) = Some t'"
       "getAllFiles (workspace st) = pre @ getAllFiles parent @ post"
       "getAllFiles t' = pre @ getAllFiles (splice1 index parent) @ post" by blast
  have ws: "workspace (snd (delete st p)) = t'"
    using par idx h(1) by (simp add: delete_def Let_def index_def mutateItemByPath_def saveWorkspace_def)
  define A where "A = getAllFilesLoop (take (nat index) (children parent))"
  define B where "B = getAllFilesLoop (drop (nat index + 1) (children parent))"
  have gp: "getAllFiles parent = A @ filesOf d @ B"
  proof -
    have "getAllFiles parent = getAllFilesLoop (children parent)"
      using pf by (cases parent) simp_all
    also have "\<dots> = getAllFilesLoop (take (nat index) (children parent) @ d # drop (nat index + 1) (children parent))"
      by (rule arg_cong[OF split])
    also have "\<dots> = A @ filesOf d @ B"
      by (simp add: getAllFilesLoop_append A_def B_def filesOf_def)
    finally show ?thesis .
  qed
  have gs: "getAllFiles (splice1 index parent) = A @ B"
    using pf by (cases parent) (simp_all add: splice1_def getAllFilesLoop_append A_def B_def)
  have "getAllFiles (workspace st) = (pre @ A) @ filesOf d @ (B @ post)"
    using h(2) gp by simp
  moreover have "getAllFiles (workspace (snd (delete st p))) = (pre @ A) @ (B @ post)"
    using h(3) gs ws by simp
  ultimately show ?thesis using par dmem i(2) by blast
qed

lemma flattenList_append: "flattenList (xs @ ys) = flattenList xs @ flattenList ys"
  by (induction xs) simp_all

lemma update_block:
  "findItemByPath p t = Some x \<Longrightarrow>
      (\<exists>pre post t'. updateItemByPath p f t = Some t' \<and>
         flatten t = pre @ flatten x @ post \<and> flatten t' = pre @ flatten (f x) @ post)"
  "findInChildren p cs = Some x \<Longrightarrow>
      (\<exists>pre post cs'. updateInChildren p f cs = Some cs' \<and>
         flattenList cs = pre @ flatten x @ post \<and> flattenList cs' = pre @ flatten (f x) @ post)"
proof (induction p t and p cs arbitrary: x and x rule: findItemByPath_findInChildren.induct)
  case (1 p i n q cs)
  show ?case
  proof (cases "q = p")
    case True
    then have x: "x = VFolder i n q cs" using 1(2) by simp
    have "updateItemByPath p f (VFolder i n q cs) = Some (f x)" using True x by simp
    moreover have "flatten (VFolder i n q cs) = [] @ flatten x @ []" using x by simp
    moreover have "flatten (f x) = [] @ flatten (f x) @ []" by simp
    ultimately show ?thesis by blast
  next
    case False
    with 1(2) have "findInChildren p cs = Some x" by simp
    from 1(1)[OF False this] obtain pre post cs' where
      h: "updateInChildren p f cs = Some cs'" "flattenList cs = pre @ flatten x @ post"
         "flattenList cs' = pre @ flatten (f x) @ post" by blast
    have len: "length cs' = length cs" using update_length[OF h(1)] .
    have "updateItemByPath p f (VFolder i n q cs) = Some (VFolder i n q cs')"
      using False h by simp
    moreover have "flatten (VFolder i n q cs) = ((VFolder i n q [], length cs) # pre) @ flatten x @ post"
      using h by simp
    moreover have "flatten (VFolder i n q cs') = ((VFolder i n q [], length cs) # pre) @ flatten (f x) @ post"
      using h len by simp
    ultimately show ?thesis by blast
  qed
next
  case (2 p i n q l c s)
  show ?case
  proof (cases "q = p")
    case True
    then have x: "x = VFile i n q l c s" using 2 by simp
    have "updateItemByPath p f (VFile i n q l c s) = Some (f x)" using True x by simp
    moreover have "flatten (VFile i n q l c s) = [] @ flatten x @ []" using x by simp
    moreover have "flatten (f x) = [] @ flatten (f x) @ []" by simp
    ultimately show ?thesis by blast
  next
    case False
    then show ?thesis using 2 by simp
  qed
next
  case (3 p)
  then show ?case by simp
next
  case (4 p child rest)
  show ?case
  proof (cases "path child = p")
    case True
    then have x: "child = x" using 4(3) by simp
    have "updateInChildren p f (child # rest) = Some (f x # rest)" using True x by simp
    moreover have "flattenList (child # rest) = [] @ flatten x @ flattenList rest"
      using x by simp
    moreover have "flattenList (f x # rest) = [] @ flatten (f x) @ flattenList rest"
      by simp
    ultimately show ?thesis by blast
  next
    case np: False
    show ?thesis
    proof (cases "is_VFolder child \<and> findItemByPath p child \<noteq> None")
      case True
      then have fx: "findItemByPath p child = Some x" using 4(3) np by (auto split: option.splits)
      from 4(1)[OF np _ fx] True obtain pre post t' where
        h: "updateItemByPath p f child = Some t'" "flatten child = pre @ flatten x @ post"
           "flatten t' = pre @ flatten (f x) @ post" by blast
      have "updateInChildren p f (child # rest) = Some (t' # rest)" using np True h by simp
      moreover have "flattenList (child # rest) = pre @ flatten x @ (post @ flattenList rest)"
        using h by simp
      moreover have "flattenList (t' # rest) = pre @ flatten (f x) @ (post @ flattenList rest)"
        using h by simp
      ultimately show ?thesis by blast
    next
      case False
      then have none: "(if is_VFolder child then findItemByPath p child else None) = None"
        by auto
      then have fr: "findInChildren p rest = Some x" using 4(3) np by simp
      from 4(2)[OF np none fr] obtain pre post cs' where
        h: "updateInChildren p f rest = Some cs'" "flattenList rest = pre @ flatten x @ post"
           "flattenList cs' = pre @ flatten (f x) @ post" by blast
      have un: "(if is_VFolder child then updateItemByPath p f child else None) = None"
        using none update_none(1)[of p child f] by (auto split: if_splits)
      have "updateInChildren p f (child # rest) = Some (child # cs')" using np un h by simp
      moreover have "flattenList (child # rest) = (flatten child @ pre) @ flatten x @ post"
        using h by simp
      moreover have "flattenList (child # cs') = (flatten child @ pre) @ flatten (f x) @ post"
        using h by simp
      ultimately show ?thesis by blast
    qed
  qed
qed

lemma delete_block:
  assumes ok: "fst (delete st p) = True"
  shows "\<exists>parent d pre mid post.
        findParentFolder p (workspace st) = Some parent \<and> d \<in> set (children parent) \<and>
        path d = p \<and>
        flatten (workspace st) =
          pre @ (fst (entry parent), length (children parent)) # mid @ flatten d @ post \<and>
        flatten (workspace (snd (delete st p))) =
          pre @ (fst (entry parent), length (children parent) - 1) # mid @ post"
proof -
  from ok obtain parent where par: "findParentFolder p (workspace st) = Some parent"
    by (auto simp: delete_def split: option.splits)
  define index where "index = findIndex (\<lambda>child. path child = p) (children parent)"
  have idx: "index \<noteq> - 1" using ok par by (auto simp: delete_def Let_def index_def split: if_splits)
  have fi: "findItemByPath (parentPathOf p) (workspace st) = Some parent" and pf: "is_VFolder parent"
    using par by (auto simp: findParentFolder_def split: option.splits if_splits)
  define d where "d = children parent ! nat index"
  from findIndex_found[of "\<lambda>child. path child = p" "children parent"] idx
  have i: "nat index < length (children parent)" "path d = p"
    by (auto simp: index_def d_def)
  have dmem: "d \<in> set (children parent)" using i by (simp add: d_def)
  define A where "A = take (nat index) (children parent)"
  define B where "B = drop (nat index + 1) (children parent)"
  have split: "children parent = A @ d # B"
    using i(1) by (simp add: d_def id_take_nth_drop A_def B_def)
  from update_block(1)[of _ _ _ "splice1 index", OF fi] obtain pre post t' where
    h: "updateItemByPath (parentPathOf p) (splice1 index) (workspace st) = Some t'"
       "flatten (workspace st) = pre @ flatten parent @ post"
       "flatten t' = pre @ flatten (splice1 index parent) @ post" by blast
  have ws: "workspace (snd (delete st p)) = t'"
    using par idx h(1) by (simp add: delete_def Let_def index_def mutateItemByPath_def saveWorkspace_def)
  obtain pi pn pq pcs where pe: "parent = VFolder pi pn pq pcs" using pf by (cases parent) auto
  have cs: "pcs = A @ d # B" using split pe by simp
  have fp: "flatten parent =
      (fst (entry parent), length (children parent)) # flattenList A @ flatten d @ flattenList B"
    unfolding pe by (simp add: entry_def cs flattenList_append)
  have sp: "splice1 index parent = VFolder pi pn pq (A @ B)"
    using pe by (simp add: splice1_def A_def B_def)
  have lenA: "length (A @ B) = length (children parent) - 1"
    using pe cs by simp
  have fs: "flatten (splice1 index parent) =
      (fst (entry parent), length (children parent) - 1) # flattenList A @ flattenList B"
    unfolding sp using lenA by (simp add: pe entry_def flattenList_append)
  have "flatten (workspace st) =
          pre @ (fst (entry parent), length (children parent)) # flattenList A @ flatten d @ (flattenList B @ post)"
    using h(2) fp by simp
  moreover have "flatten (workspace (snd (delete st p))) =
          pre @ (fst (entry parent), length (children parent) - 1) # flattenList A @ (flattenList B @ post)"
    using h(3) fs ws by simp
  ultimately show ?thesis using par dmem i(2) by blast
qed

section \<open>Well-formed trees\<close>

lemma childPath_base: "childPath pp n = basePath pp @ n"
  by (simp add: childPath_def basePath_def)

lemma find_append_opt:
  "find P (xs @ ys) = (case find P xs of None \<Rightarrow> find P ys | Some x \<Rightarrow> Some x)"
  by (induction xs) auto

lemma find_nodes:
  "findItemByPath p t = find (\<lambda>x. path x = p) (nodes t)"
  "findInChildren p cs = find (\<lambda>x. path x = p) (nodesList cs)"
proof (induction p t and p cs rule: findItemByPath_findInChildren.induct)
  case (4 p child rest)
  show ?case
  proof (cases child)
    case (VFile i n q l c s)
    then show ?thesis using 4 by (simp add: find_append_opt)
  next
    case (VFolder i n q cs)
    then show ?thesis using 4 by (auto simp: find_append_opt split: option.splits)
  qed
qed auto

lemma nodesList_mem:
  "x \<in> set (nodesList cs) \<Longrightarrow> \<exists>c\<in>set cs. x \<in> set (nodes c)"
  by (induction cs) auto

lemma nodesList_memI:
  "c \<in> set cs \<Longrightarrow> x \<in> set (nodes c) \<Longrightarrow> x \<in> set (nodesList cs)"
  by (induction cs) auto

lemma wfList_mem: "wfList q cs \<Longrightarrow> c \<in> set cs \<Longrightarrow> wfNode q c"
  by (induction cs) auto

lemma wfList_distinct: "wfList q cs \<Longrightarrow> distinct (map name cs)"
  by (induction cs) auto

lemma wfNode_path:
  "wfNode pp c \<Longrightarrow> path c = childPath pp (name c) \<and> name c \<noteq> [] \<and> CHR ''/'' \<notin> set (name c)"
  by (cases c) auto

lemma childPath_not_root: "n \<noteq> [] \<Longrightarrow> childPath pp n \<noteq> ''/''"
  by (cases n) (auto simp: childPath_def append_eq_Cons_conv)

lemma under_node:
  "wfNode pp c \<Longrightarrow> x \<in> set (nodes c) \<Longrightarrow> x = c \<or> (\<exists>r. path x = path c @ CHR ''/'' # r)"
proof (induction c arbitrary: pp x)
  case (VFile i n q l c s)
  then show ?case by simp
next
  case (VFolder i n q cs)
  show ?case
  proof (cases "x = VFolder i n q cs")
    case True
    then show ?thesis by simp
  next
    case False
    then have "x \<in> set (nodesList cs)" using VFolder.prems(2) by simp
    then obtain c' where c': "c' \<in> set cs" "x \<in> set (nodes c')"
      using nodesList_mem by blast
    have wl: "wfList q cs" and qn: "q \<noteq> ''/''"
      using VFolder.prems(1) childPath_not_root by auto
    have wc: "wfNode q c'" using wfList_mem[OF wl c'(1)] .
    have pc: "path c' = q @ CHR ''/'' # name c'"
      using wfNode_path[OF wc] qn by (simp add: childPath_def)
    from VFolder.IH[OF c'(1) wc c'(2)] show ?thesis
    proof
      assume "x = c'"
      then show ?thesis using pc by simp
    next
      assume "\<exists>r. path x = path c' @ CHR ''/'' # r"
      then obtain r where "path x = path c' @ CHR ''/'' # r" by blast
      then have "path x = q @ CHR ''/'' # (name c' @ CHR ''/'' # r)" using pc by simp
      then show ?thesis by auto
    qed
  qed
qed

lemma sep_names:
  assumes "n1 \<noteq> n2" "CHR ''/'' \<notin> set n1" "CHR ''/'' \<notin> set n2"
    and "r1 = [] \<or> hd r1 = CHR ''/''" "r2 = [] \<or> hd r2 = CHR ''/''"
  shows "b @ n1 @ r1 \<noteq> b @ n2 @ r2"
proof
  assume "b @ n1 @ r1 = b @ n2 @ r2"
  then have e: "n1 @ r1 = n2 @ r2" by simp
  have t: "takeWhile (\<lambda>c. c \<noteq> CHR ''/'') (n @ r) = n"
    if "CHR ''/'' \<notin> set n" "r = [] \<or> hd r = CHR ''/''" for n r
  proof (cases r)
    case Nil
    then show ?thesis using that by (auto simp: takeWhile_eq_all_conv)
  next
    case (Cons a list)
    then have "a = CHR ''/''" using that(2) by simp
    then show ?thesis using that(1) Cons
      by (auto simp: takeWhile_tail takeWhile_eq_all_conv)
  qed
  have "n1 = takeWhile (\<lambda>c. c \<noteq> CHR ''/'') (n1 @ r1)" using t[OF assms(2,4)] by simp
  also have "\<dots> = takeWhile (\<lambda>c. c \<noteq> CHR ''/'') (n2 @ r2)" using e by simp
  also have "\<dots> = n2" using t[OF assms(3,5)] .
  finally show False using assms(1) by simp
qed

lemma under_form:
  assumes "wfNode pp c" "x \<in> set (nodes c)"
  shows "\<exists>r. path x = basePath pp @ name c @ r \<and> (r = [] \<or> hd r = CHR ''/'')"
proof -
  have pc: "path c = basePath pp @ name c"
    using wfNode_path[OF assms(1)] by (simp add: childPath_base)
  from under_node[OF assms] show ?thesis
  proof
    assume "x = c"
    then have "path x = basePath pp @ name c @ []" using pc by simp
    then show ?thesis by blast
  next
    assume "\<exists>r. path x = path c @ CHR ''/'' # r"
    then obtain r where "path x = path c @ CHR ''/'' # r" by blast
    then have "path x = basePath pp @ name c @ (CHR ''/'' # r)" using pc by simp
    moreover have "hd (CHR ''/'' # r) = CHR ''/''" by simp
    ultimately show ?thesis by blast
  qed
qed

lemma distinct_paths:
  "wfNode pp c \<Longrightarrow> distinct (map path (nodes c))"
  "wfList q cs \<Longrightarrow> distinct (map path (nodesList cs))"
proof (induction pp c and q cs rule: wfNode_wfList.induct)
  case (1 pp i n q l c s)
  then show ?case by simp
next
  case (2 pp i n q cs)
  then have wl: "wfList q cs" and d: "distinct (map path (nodesList cs))" by auto
  have qn: "q \<noteq> ''/''" using 2(2) childPath_not_root by auto
  have "q \<noteq> path x" if xin: "x \<in> set (nodesList cs)" for x
  proof -
    obtain c' where c': "c' \<in> set cs" "x \<in> set (nodes c')"
      using nodesList_mem[OF xin] by blast
    have wc: "wfNode q c'" using wfList_mem[OF wl c'(1)] .
    obtain r where "path x = basePath q @ name c' @ r"
      using under_form[OF wc c'(2)] by blast
    then have "path x = q @ CHR ''/'' # (name c' @ r)" using qn by (simp add: basePath_def)
    then show ?thesis by auto
  qed
  then show ?case using d by auto
next
  case (3 pp)
  then show ?case by simp
next
  case (4 pp c cs)
  then have wc: "wfNode pp c" and nc: "name c \<notin> set (map name cs)" and wl: "wfList pp cs"
    and d1: "distinct (map path (nodes c))" and d2: "distinct (map path (nodesList cs))"
    by auto
  have "path x \<noteq> path y" if xin: "x \<in> set (nodes c)" and yin: "y \<in> set (nodesList cs)" for x y
  proof -
    obtain c' where c': "c' \<in> set cs" "y \<in> set (nodes c')"
      using nodesList_mem[OF yin] by blast
    have wc': "wfNode pp c'" using wfList_mem[OF wl c'(1)] .
    obtain r1 where r1: "path x = basePath pp @ name c @ r1" "r1 = [] \<or> hd r1 = CHR ''/''"
      using under_form[OF wc xin] by blast
    obtain r2 where r2: "path y = basePath pp @ name c' @ r2" "r2 = [] \<or> hd r2 = CHR ''/''"
      using under_form[OF wc' c'(2)] by blast
    have ne: "name c \<noteq> name c'" using nc c'(1) by auto
    show ?thesis
      unfolding r1(1) r2(1)
      using sep_names[OF ne _ _ r1(2) r2(2)] wfNode_path[OF wc] wfNode_path[OF wc'] by blast
  qed
  then show ?case using d1 d2 by auto
qed

lemma find_distinct:
  "distinct (map f xs) \<Longrightarrow> x \<in> set xs \<Longrightarrow> find (\<lambda>y. f y = f x) xs = Some x"
proof (induction xs)
  case Nil
  then show ?case by simp
next
  case (Cons a xs)
  then show ?case by (cases "a = x") force+
qed

lemma find_Some_mem: "find P xs = Some x \<Longrightarrow> x \<in> set xs \<and> P x"
  by (induction xs) (auto split: if_splits)

lemma parent_in_nodes:
  "x \<in> set (nodes c) \<Longrightarrow>
     x = c \<or> (\<exists>par\<in>set (nodes c). is_VFolder par \<and> x \<in> set (children par))"
proof (induction c arbitrary: x)
  case (VFile i n q l c s)
  then show ?case by simp
next
  case (VFolder i n q cs)
  show ?case
  proof (cases "x = VFolder i n q cs")
    case True
    then show ?thesis by simp
  next
    case False
    then have "x \<in> set (nodesList cs)" using VFolder.prems by simp
    then obtain c' where c': "c' \<in> set cs" "x \<in> set (nodes c')"
      using nodesList_mem by blast
    from VFolder.IH[OF c'] show ?thesis
    proof
      assume "x = c'"
      then have "x \<in> set (children (VFolder i n q cs))" using c'(1) by simp
      moreover have "VFolder i n q cs \<in> set (nodes (VFolder i n q cs))" by simp
      ultimately show ?thesis by (metis node.disc(4))
    next
      assume "\<exists>par\<in>set (nodes c'). is_VFolder par \<and> x \<in> set (children par)"
      then obtain par where par: "par \<in> set (nodes c')" "is_VFolder par" "x \<in> set (children par)"
        by blast
      have "par \<in> set (nodes (VFolder i n q cs))"
        using nodesList_memI[OF c'(1) par(1)] by simp
      then show ?thesis using par by blast
    qed
  qed
qed

lemma wf_at_folder:
  "wfNode pp c \<Longrightarrow> par \<in> set (nodes c) \<Longrightarrow> is_VFolder par \<Longrightarrow>
     wfList (path par) (children par) \<and> path par \<noteq> []"
proof (induction c arbitrary: pp)
  case (VFile i n q l c s)
  then show ?case by auto
next
  case (VFolder i n q cs)
  show ?case
  proof (cases "par = VFolder i n q cs")
    case True
    then show ?thesis using VFolder.prems(1) by (auto simp: childPath_def)
  next
    case False
    then have "par \<in> set (nodesList cs)" using VFolder.prems(2) by simp
    then obtain c' where c': "c' \<in> set cs" "par \<in> set (nodes c')"
      using nodesList_mem by blast
    have "wfNode q c'" using VFolder.prems(1) wfList_mem c'(1) by auto
    from VFolder.IH[OF c'(1) this c'(2) VFolder.prems(3)] show ?thesis .
  qed
qed

lemma lastIndexOf_append:
  "c \<notin> set n \<Longrightarrow> lastIndexOf c (xs @ c # n) = int (length xs)"
proof -
  assume a: "c \<notin> set n"
  then have "takeWhile (\<lambda>d. d \<noteq> c) (rev n @ c # rev xs) = rev n"
    by (auto simp: takeWhile_tail takeWhile_eq_all_conv)
  then show ?thesis by (simp add: lastIndexOf_def)
qed

lemma parentPathOf_childPath:
  assumes "CHR ''/'' \<notin> set n" "pp \<noteq> []"
  shows "parentPathOf (childPath pp n) = pp"
proof (cases "pp = ''/''")
  case True
  have "lastIndexOf CHR ''/'' ([] @ CHR ''/'' # n) = int (length ([]::string))"
    using lastIndexOf_append[OF assms(1)] by blast
  then show ?thesis using True by (simp add: parentPathOf_def childPath_def substring_def)
next
  case False
  have "lastIndexOf CHR ''/'' (pp @ CHR ''/'' # n) = int (length pp)"
    using lastIndexOf_append[OF assms(1)] by blast
  then show ?thesis using False assms(2)
    by (simp add: parentPathOf_def childPath_def substring_def Let_def)
qed

lemma newPath_childPath:
  assumes "CHR ''/'' \<notin> set n"
  shows "substring (childPath pp n) 0 (lastIndexOf CHR ''/'' (childPath pp n) + 1) @ n = childPath pp n"
proof (cases "pp = ''/''")
  case True
  have "lastIndexOf CHR ''/'' ([] @ CHR ''/'' # n) = int (length ([]::string))"
    using lastIndexOf_append[OF assms(1)] by blast
  then show ?thesis using True by (simp add: childPath_def substring_def)
next
  case False
  have "lastIndexOf CHR ''/'' (pp @ CHR ''/'' # n) = int (length pp)"
    using lastIndexOf_append[OF assms(1)] by blast
  then show ?thesis using False
    by (simp add: childPath_def substring_def Let_def nat_add_distrib)
qed

lemma wfRoot_nodes:
  assumes "wfRoot root"
  shows "distinct (map path (nodes root))"
    and "path root = ''/''"
    and "is_VFolder root"
    and "wfList ''/'' (children root)"
proof -
  obtain i n cs where r: "root = VFolder i n ''/'' cs" and wl: "wfList ''/'' cs"
    using assms by (auto simp: wfRoot_def split: node.splits)
  show "path root = ''/''" "is_VFolder root" "wfList ''/'' (children root)"
    using r wl by simp_all
  have "''/'' \<noteq> path x" if xin: "x \<in> set (nodesList cs)" for x
  proof -
    obtain c' where c': "c' \<in> set cs" "x \<in> set (nodes c')"
      using nodesList_mem[OF xin] by blast
    have wc: "wfNode ''/'' c'" using wfList_mem[OF wl c'(1)] .
    obtain r where "path x = basePath ''/'' @ name c' @ r"
      using under_form[OF wc c'(2)] by blast
    moreover have "name c' \<noteq> []" using wfNode_path[OF wc] by simp
    ultimately show ?thesis by (cases "name c'") (auto simp: basePath_def)
  qed
  then show "distinct (map path (nodes root))"
    using distinct_paths(2)[OF wl] r by auto
qed

lemma resolve_parent:
  assumes wf: "wfRoot root" and fi: "findItemByPath p root = Some item" and np: "p \<noteq> ''/''"
  shows "\<exists>parent. findItemByPath (parentPathOf p) root = Some parent \<and> is_VFolder parent \<and>
           item \<in> set (children parent) \<and> wfList (path parent) (children parent) \<and>
           path parent \<noteq> [] \<and> p = childPath (path parent) (name item)"
proof -
  have im: "item \<in> set (nodes root)" and ip: "path item = p"
    using fi find_Some_mem[of "\<lambda>x. path x = p" "nodes root" item] by (simp_all add: find_nodes)
  have "item \<noteq> root" using ip np wfRoot_nodes(2)[OF wf] by auto
  with parent_in_nodes[OF im] obtain par where
    par: "par \<in> set (nodes root)" "is_VFolder par" "item \<in> set (children par)" by blast
  have wl: "wfList (path par) (children par)" and pn: "path par \<noteq> []"
  proof -
    obtain i n cs where r: "root = VFolder i n ''/'' cs" and wlr: "wfList ''/'' cs"
      using wf by (auto simp: wfRoot_def split: node.splits)
    show "wfList (path par) (children par)" "path par \<noteq> []"
    proof -
      have "wfList (path par) (children par) \<and> path par \<noteq> []"
      proof (cases "par = root")
        case True
        then show ?thesis using r wlr by simp
      next
        case False
        then have "par \<in> set (nodesList cs)" using par(1) r by simp
        then obtain c' where c': "c' \<in> set cs" "par \<in> set (nodes c')"
          using nodesList_mem by blast
        have "wfNode ''/'' c'" using wfList_mem[OF wlr c'(1)] .
        from wf_at_folder[OF this c'(2) par(2)] show ?thesis .
      qed
      then show "wfList (path par) (children par)" "path par \<noteq> []" by simp_all
    qed
  qed
  have wi: "wfNode (path par) item" using wfList_mem[OF wl par(3)] .
  have pe: "p = childPath (path par) (name item)" and sl: "CHR ''/'' \<notin> set (name item)"
    using wfNode_path[OF wi] ip by simp_all
  have pp: "parentPathOf p = path par"
    unfolding pe using parentPathOf_childPath[OF sl pn] .
  have "findItemByPath (path par) root = Some par"
    using find_distinct[OF wfRoot_nodes(1)[OF wf] par(1)] by (simp add: find_nodes)
  then show ?thesis using pp par(2,3) wl pn pe by auto
qed

lemma update_id:
  "findItemByPath p t = Some x \<Longrightarrow> f x = x \<Longrightarrow> updateItemByPath p f t = Some t"
  "findInChildren p cs = Some x \<Longrightarrow> f x = x \<Longrightarrow> updateInChildren p f cs = Some cs"
proof (induction p t and p cs arbitrary: x and x rule: findItemByPath_findInChildren.induct)
  case (4 p child rest)
  show ?case
  proof (cases "path child = p")
    case True
    then show ?thesis using 4(3,4) by simp
  next
    case np: False
    show ?thesis
    proof (cases "is_VFolder child \<and> findItemByPath p child \<noteq> None")
      case True
      then have fx: "findItemByPath p child = Some x" using 4(3) np by (auto split: option.splits)
      from 4(1)[OF np _ fx 4(4)] True show ?thesis using np by simp
    next
      case False
      then have none: "(if is_VFolder child then findItemByPath p child else None) = None"
        by auto
      then have fr: "findInChildren p rest = Some x" using 4(3) np by simp
      have un: "(if is_VFolder child then updateItemByPath p f child else None) = None"
        using none update_none(1)[of p child f] by (auto split: if_splits)
      from 4(2)[OF np none fr 4(4)] show ?thesis using np un by simp
    qed
  qed
qed (auto split: if_splits)

lemma subnodes_renameItem: "subnodes (renameItem n q y) = subnodes y"
  by (cases y) (simp_all add: renameItem_def subnodes_def)

lemma distinct_map_same:
  "distinct (map f xs) \<Longrightarrow> x \<in> set xs \<Longrightarrow> y \<in> set xs \<Longrightarrow> f x = f y \<Longrightarrow> x = y"
  by (meson distinct_map inj_on_eq_iff)

lemma findIndex_mem: "x \<in> set xs \<Longrightarrow> P x \<Longrightarrow> findIndex P xs \<noteq> - 1"
proof (induction xs)
  case Nil
  then show ?case by simp
next
  case (Cons a xs)
  show ?case
  proof (cases "P a")
    case True
    then show ?thesis by simp
  next
    case False
    then have "x \<in> set xs" using Cons.prems by auto
    then have ne: "findIndex P xs \<noteq> - 1" using Cons.IH Cons.prems(2) by simp
    have "0 \<le> findIndex P xs" using findIndex_found[OF ne] by simp
    then show ?thesis using ne False by (simp add: Let_def)
  qed
qed

lemma delete_resolves:
  assumes wf: "wfRoot (workspace st)"
    and fi: "findItemByPath p (workspace st) = Some d"
    and np: "p \<noteq> ''/''"
  shows "fst (delete st p) = True \<and>
         (\<exists>pre post. getAllFiles (workspace st) = pre @ filesOf d @ post \<and>
            getAllFiles (workspace (snd (delete st p))) = pre @ post)"
proof -
  from resolve_parent[OF wf fi np] obtain parent where
    par: "findItemByPath (parentPathOf p) (workspace st) = Some parent" "is_VFolder parent"
         "d \<in> set (children parent)" "wfList (path parent) (children parent)"
         "p = childPath (path parent) (name d)"
    by blast
  have fp: "findParentFolder p (workspace st) = Some parent"
    using par(1,2) by (simp add: findParentFolder_def)
  have ip: "path d = p"
    using wfNode_path[OF wfList_mem[OF par(4,3)]] par(5) by simp
  have "findIndex (\<lambda>child. path child = p) (children parent) \<noteq> - 1"
    using findIndex_mem[of d "children parent" "\<lambda>child. path child = p"] par(3) ip by simp
  then have ok: "fst (delete st p) = True"
    using fp by (simp add: delete_def Let_def)
  from delete_removes_child[OF ok] fp obtain d' pre post where
    h: "d' \<in> set (children parent)" "path d' = p"
       "getAllFiles (workspace st) = pre @ filesOf d' @ post"
       "getAllFiles (workspace (snd (delete st p))) = pre @ post"
    by auto
  have "path d' = childPath (path parent) (name d')"
    using wfNode_path[OF wfList_mem[OF par(4) h(1)]] by simp
  then have "name d' = name d" using h(2) par(5) by (simp add: childPath_base)
  then have "d' = d"
    using distinct_map_same[OF wfList_distinct[OF par(4)] h(1) par(3)] by simp
  then show ?thesis using ok h(3,4) by blast
qed

lemma flatten_paths:
  "map (\<lambda>e. path (fst e)) (flatten t) = map path (nodes t)"
  "map (\<lambda>e. path (fst e)) (flattenList cs) = map path (nodesList cs)"
  by (induction t and cs rule: flatten_flattenList.induct) simp_all

lemma files_nodes:
  "filter is_VFile (nodes t) = filesOf t"
  "filter is_VFile (nodesList cs) = getAllFilesLoop cs"
  by (induction t and cs rule: nodes_nodesList.induct)
     (simp_all add: filesOf_def)

lemma wfRoot_files_distinct:
  assumes "wfRoot root"
  shows "distinct (map path (getAllFiles root))"
proof -
  have "getAllFiles root = filter is_VFile (nodes root)"
    using files_nodes(1)[of root] wfRoot_nodes(3)[OF assms] by (simp add: filesOf_def)
  then show ?thesis
    using wfRoot_nodes(1)[OF assms] by (simp add: distinct_map_filter)
qed

lemma delete_child_unique:
  assumes wf: "wfRoot root" and fi: "findItemByPath p root = Some d" and np: "p \<noteq> ''/''"
    and fp: "findParentFolder p root = Some parent"
    and mem: "d' \<in> set (children parent)" and pd: "path d' = p"
  shows "d' = d"
proof -
  from resolve_parent[OF wf fi np] obtain parent' where
    par: "findItemByPath (parentPathOf p) root = Some parent'" "is_VFolder parent'"
         "d \<in> set (children parent')" "wfList (path parent') (children parent')"
         "p = childPath (path parent') (name d)"
    by blast
  have "parent' = parent" using par(1,2) fp by (simp add: findParentFolder_def)
  note par = par[unfolded this]
  have "path d' = childPath (path parent) (name d')"
    using wfNode_path[OF wfList_mem[OF par(4) mem]] by simp
  then have "name d' = name d" using pd par(5) by (simp add: childPath_base)
  then show "d' = d"
    using distinct_map_same[OF wfList_distinct[OF par(4)] mem par(3)] by simp
qed

lemma delete_saves:
  "fst (delete st p) = True \<Longrightarrow>
     localStorage (snd (delete st p)) =
       (if quota_exceeded st then localStorage st else Some (workspace (snd (delete st p))))"
  by (auto simp: delete_def Let_def saveWorkspace_def split: option.splits if_splits)

text \<open>
  Claim C8, as the claim states it, fails where the path of the folder does not
  lead to its parent. After \<open>createFolder('/src', 'sub')\<close>,
  \<open>createFile('/src/sub', 'a.c')\<close> and \<open>rename('/src', 'lib')\<close> the folder found at
  \<open>/src/sub\<close> lies below \<open>/lib\<close>: \<open>delete('/src/sub')\<close> returns false and changes
  nothing. When a second folder \<open>/src/sub\<close> has then been created,
  \<open>delete('/src/sub')\<close> returns true and removes that empty folder: the folder
  found at the path, and its file \<open>a.c\<close>, stay. A folder created with the name
  \<open>a/b\<close> has the path \<open>/a/b\<close> and is not deleted, since no node has the path \<open>/a\<close>.
  The root is a folder too, and \<open>delete('/')\<close> returns false.
\<close>

theorem delete_removes_subtree_counterexample:
  "map_option (\<lambda>d. (is_VFolder d, map path (getAllFiles d)))
     (findItemByPath ''/src/sub'' (workspace staleService)) = Some (True, [''/src/sub/a.c'']) \<and>
   delete staleService ''/src/sub'' = (False, staleService) \<and>
   map path (getAllFiles (workspace staleService)) =
     [''/src/main.cpp'', ''/src/main.py'', ''/src/sub/a.c'', ''/README.md''] \<and>
   map_option (\<lambda>d. (node_id d, is_VFolder d, map path (getAllFiles d)))
     (findItemByPath ''/src/sub'' (workspace shadowService)) =
       Some (''id6'', True, [''/src/sub/a.c'']) \<and>
   fst (delete shadowService ''/src/sub'') = True \<and>
   map path (getAllFiles (workspace (snd (delete shadowService ''/src/sub'')))) =
     [''/src/main.cpp'', ''/src/main.py'', ''/src/sub/a.c'', ''/README.md''] \<and>
   map_option (\<lambda>d. (node_id d, is_VFolder d, map path (getAllFiles d)))
     (findItemByPath ''/src/sub'' (workspace (snd (delete shadowService ''/src/sub'')))) =
       Some (''id6'', True, [''/src/sub/a.c'']) \<and>
   map_option (\<lambda>d. (is_VFolder d, map path (getAllFiles d)))
     (findItemByPath ''/a/b'' (workspace slashService)) = Some (True, [''/a/b/x.c'']) \<and>
   delete slashService ''/a/b'' = (False, slashService) \<and>
   map_option is_VFolder (findItemByPath ''/'' (workspace freshService)) = Some True \<and>
   delete freshService ''/'' = (False, freshService)"
proof -
  have 1: "map_option (\<lambda>d. (is_VFolder d, map path (getAllFiles d)))
     (findItemByPath ''/src/sub'' (workspace staleService)) = Some (True, [''/src/sub/a.c''])"
    by code_simp
  have "findParentFolder ''/src/sub'' (workspace staleService) = None" by code_simp
  then have 2: "delete staleService ''/src/sub'' = (False, staleService)"
    by (simp add: delete_def)
  have 3: "map path (getAllFiles (workspace staleService)) =
     [''/src/main.cpp'', ''/src/main.py'', ''/src/sub/a.c'', ''/README.md'']"
    by code_simp
  have 4: "map_option (\<lambda>d. (node_id d, is_VFolder d, map path (getAllFiles d)))
     (findItemByPath ''/src/sub'' (workspace shadowService)) =
       Some (''id6'', True, [''/src/sub/a.c''])"
    by code_simp
  have 5: "fst (delete shadowService ''/src/sub'') = True" by code_simp
  have 6: "map path (getAllFiles (workspace (snd (delete shadowService ''/src/sub'')))) =
     [''/src/main.cpp'', ''/src/main.py'', ''/src/sub/a.c'', ''/README.md'']"
    by code_simp
  have 7: "map_option (\<lambda>d. (node_id d, is_VFolder d, map path (getAllFiles d)))
     (findItemByPath ''/src/sub'' (workspace (snd (delete shadowService ''/src/sub'')))) =
       Some (''id6'', True, [''/src/sub/a.c''])"
    by code_simp
  have 8: "map_option (\<lambda>d. (is_VFolder d, map path (getAllFiles d)))
     (findItemByPath ''/a/b'' (workspace slashService)) = Some (True, [''/a/b/x.c''])"
    by code_simp
  have "findParentFolder ''/a/b'' (workspace slashService) = None" by code_simp
  then have 9: "delete slashService ''/a/b'' = (False, slashService)"
    by (simp add: delete_def)
  have 10: "map_option is_VFolder (findItemByPath ''/'' (workspace freshService)) = Some True"
    by code_simp
  have "findParentFolder ''/'' (workspace freshService) = Some (workspace freshService)"
    by code_simp
  moreover have "findIndex (\<lambda>child. path child = ''/'') (children (workspace freshService)) = - 1"
    by code_simp
  ultimately have 11: "delete freshService ''/'' = (False, freshService)"
    by (simp add: delete_def Let_def)
  show ?thesis using 1 2 3 4 5 6 7 8 9 10 11 by blast
qed

text \<open>
  Claim C8, amended. In a well-formed tree, \<open>delete\<close> of the path of any node \<open>d\<close>
  but the root returns true and removes \<open>d\<close> with everything below it in one step.
  Nothing is found at the path afterwards. The entries of the tree are those
  before without the block of \<open>d\<close>, the entry of its parent holding one child
  less: every other node is as it was. The files that \<open>getAllFiles\<close> lists are
  those listed before without the files of \<open>d\<close> (all the files below \<open>d\<close> when it
  is a folder), and none of them has the path of a file of \<open>d\<close>. The tree is
  stored as after every change.
\<close>

theorem delete_removes_subtree:
  assumes wf: "wfRoot (workspace st)"
    and fi: "findItemByPath p (workspace st) = Some d"
    and np: "p \<noteq> ''/''"
  shows "fst (delete st p) = True \<and>
         findItemByPath p (workspace (snd (delete st p))) = None \<and>
         (\<exists>parent pre mid post.
            findParentFolder p (workspace st) = Some parent \<and> d \<in> set (children parent) \<and>
            flatten (workspace st) =
              pre @ (fst (entry parent), length (children parent)) # mid @ flatten d @ post \<and>
            flatten (workspace (snd (delete st p))) =
              pre @ (fst (entry parent), length (children parent) - 1) # mid @ post) \<and>
         (\<exists>pre post.
            getAllFiles (workspace st) = pre @ filesOf d @ post \<and>
            getAllFiles (workspace (snd (delete st p))) = pre @ post) \<and>
         set (map path (filesOf d)) \<inter>
           set (map path (getAllFiles (workspace (snd (delete st p))))) = {} \<and>
         localStorage (snd (delete st p)) =
           (if quota_exceeded st then localStorage st
            else Some (workspace (snd (delete st p))))"
proof -
  define root' where "root' = workspace (snd (delete st p))"
  from delete_resolves[OF wf fi np] obtain fpre fpost where
    ok: "fst (delete st p) = True"
    and files: "getAllFiles (workspace st) = fpre @ filesOf d @ fpost"
               "getAllFiles root' = fpre @ fpost"
    unfolding root'_def by blast
  from delete_block[OF ok] obtain parent d' pre mid post where
    b: "findParentFolder p (workspace st) = Some parent" "d' \<in> set (children parent)"
       "path d' = p"
       "flatten (workspace st) =
          pre @ (fst (entry parent), length (children parent)) # mid @ flatten d' @ post"
       "flatten root' =
          pre @ (fst (entry parent), length (children parent) - 1) # mid @ post"
    unfolding root'_def by blast
  have dd: "d' = d" using delete_child_unique[OF wf fi np b(1,2,3)] .
  note b = b[unfolded dd]
  have dist: "distinct (map (\<lambda>e. path (fst e)) (flatten (workspace st)))"
    using wfRoot_nodes(1)[OF wf] by (simp add: flatten_paths)
  have pin: "p \<in> set (map (\<lambda>e. path (fst e)) (flatten d))"
    using b(3) by (simp add: flatten_entry)
  have "p \<notin> set (map (\<lambda>e. path (fst e))
                     (pre @ (fst (entry parent), length (children parent) - 1) # mid @ post))"
  proof -
    define A where "A = map (\<lambda>e. path (fst e)) pre"
    define M where "M = map (\<lambda>e. path (fst e)) mid"
    define D where "D = map (\<lambda>e. path (fst e)) (flatten d)"
    define B where "B = map (\<lambda>e. path (fst e)) post"
    have "distinct (A @ path parent # M @ D @ B)"
      using dist unfolding b(4) by (simp add: A_def M_def D_def B_def)
    moreover have "p \<in> set D" using pin by (simp add: D_def)
    ultimately have "p \<notin> set (A @ path parent # M @ B)" by auto
    then show ?thesis by (simp add: A_def M_def B_def)
  qed
  then have "p \<notin> set (map path (nodes root'))"
    unfolding b(5)[symmetric] flatten_paths .
  then have gone: "findItemByPath p root' = None"
    unfolding find_nodes by (auto simp: find_None_iff)
  have "distinct (map path (fpre @ filesOf d @ fpost))"
    using wfRoot_files_distinct[OF wf] unfolding files(1) .
  then have disj: "set (map path (filesOf d)) \<inter> set (map path (getAllFiles root')) = {}"
    unfolding files(2) by auto
  have blk: "\<exists>parent pre mid post.
            findParentFolder p (workspace st) = Some parent \<and> d \<in> set (children parent) \<and>
            flatten (workspace st) =
              pre @ (fst (entry parent), length (children parent)) # mid @ flatten d @ post \<and>
            flatten root' =
              pre @ (fst (entry parent), length (children parent) - 1) # mid @ post"
    using b(1,2,4,5) by blast
  have fl: "\<exists>pre post.
            getAllFiles (workspace st) = pre @ filesOf d @ post \<and>
            getAllFiles root' = pre @ post"
    using files by blast
  show ?thesis
    using ok gone blk fl disj delete_saves[OF ok] unfolding root'_def by blast
qed

theorem delete_removes_subtree_witness:
  "wfRoot (workspace threeFileService) \<and>
   is_VFolder (the (findItemByPath ''/src'' (workspace threeFileService))) \<and>
   fst (delete threeFileService ''/src'') = True \<and>
   findItemByPath ''/src'' (workspace (snd (delete threeFileService ''/src''))) = None \<and>
   map path (getAllFiles (workspace threeFileService)) =
     [''/src/main.cpp'', ''/src/main.py'', ''/src/util.js'', ''/README.md''] \<and>
   map path (getAllFiles (workspace (snd (delete threeFileService ''/src'')))) = [''/README.md''] \<and>
   (\<exists>i n cs pre post.
      getAllFiles (workspace threeFileService) = pre @ getAllFiles (VFolder i n ''/src'' cs) @ post \<and>
      length (getAllFiles (VFolder i n ''/src'' cs)) = 3 \<and>
      getAllFiles (workspace (snd (delete threeFileService ''/src''))) = pre @ post)"
proof -
  define src where "src = VFolder ''id1'' ''src'' ''/src''
     [VFile ''id2'' ''main.cpp'' ''/src/main.cpp'' Cpp (DEFAULT_CODE Cpp) True,
      VFile ''id3'' ''main.py'' ''/src/main.py'' Python (DEFAULT_CODE Python) True,
      VFile ''id6'' ''util.js'' ''/src/util.js'' Javascript (DEFAULT_CODE Javascript) False]"
  have ws: "workspace threeFileService = VFolder ''id5'' ''workspace'' ''/''
     [src, VFile ''id4'' ''README.md'' ''/README.md'' Cpp
        (''# Welcome to Strike IDE'' @ nl @ nl @
         ''Start coding by selecting a file from the explorer or creating a new one!'') True]"
    by (simp add: threeFileService_def freshService_def createDefaultWorkspace_def
        createFile_def mutateItemByPath_def push_def childPath_def saveWorkspace_def Let_def
        getLanguageFromExtension_def split_pop_def toLowerCase_def toLowerChar_def src_def)
  have wf: "wfRoot (workspace threeFileService)"
    unfolding ws by (simp add: wfRoot_def childPath_def src_def)
  have fi: "findItemByPath ''/src'' (workspace threeFileService) = Some src"
    unfolding ws by (simp add: src_def)
  have before: "map path (getAllFiles (workspace threeFileService)) =
     [''/src/main.cpp'', ''/src/main.py'', ''/src/util.js'', ''/README.md'']"
    unfolding ws by (simp add: src_def)
  have np: "''/src'' \<noteq> ''/''" by simp
  from delete_removes_subtree[OF wf fi np]
  obtain pre post where
    ok: "fst (delete threeFileService ''/src'') = True" and
    gone: "findItemByPath ''/src'' (workspace (snd (delete threeFileService ''/src''))) = None" and
    h: "getAllFiles (workspace threeFileService) = pre @ filesOf src @ post"
       "getAllFiles (workspace (snd (delete threeFileService ''/src''))) = pre @ post"
    by blast
  have fo: "filesOf src = getAllFiles src" "length (getAllFiles src) = 3"
    by (simp_all add: filesOf_def src_def)
  have after: "map path (getAllFiles (workspace (snd (delete threeFileService ''/src'')))) =
     [''/README.md'']"
    by (simp add: threeFileService_def freshService_def createDefaultWorkspace_def
        createFile_def delete_def findParentFolder_def parentPathOf_def substring_def
        lastIndexOf_def mutateItemByPath_def push_def childPath_def saveWorkspace_def
        splice1_def Let_def)
  have "is_VFolder (the (findItemByPath ''/src'' (workspace threeFileService)))"
    using fi by (simp add: src_def)
  moreover have "\<exists>i n cs pre post.
      getAllFiles (workspace threeFileService) = pre @ getAllFiles (VFolder i n ''/src'' cs) @ post \<and>
      length (getAllFiles (VFolder i n ''/src'' cs)) = 3 \<and>
      getAllFiles (workspace (snd (delete threeFileService ''/src''))) = pre @ post"
  proof -
    have "getAllFiles (workspace threeFileService) = pre @ getAllFiles src @ post \<and>
      length (getAllFiles src) = 3 \<and>
      getAllFiles (workspace (snd (delete threeFileService ''/src''))) = pre @ post"
      using h fo by simp
    then show ?thesis unfolding src_def by blast
  qed
  ultimately show ?thesis using wf ok gone before after by blast
qed

section \<open>Renaming a folder\<close>

text \<open>
  Claim C1. The workspace with the folder \<open>/src\<close> holding the file \<open>/src/a.py\<close>
  is well formed. Renaming \<open>/src\<close> to \<open>lib\<close> succeeds and gives the folder the
  path \<open>/lib\<close>, but the file keeps the path \<open>/src/a.py\<close>: \<open>rename\<close> assigns
  \<open>name\<close> and \<open>path\<close> of the renamed node only and never visits its children.
  Nothing is found at \<open>/lib/a.py\<close>, and the tree is no longer well formed: the
  path of the file is not its parent's path followed by its name.
\<close>

theorem rename_folder_keeps_descendant_path:
  "wfRoot (workspace srcExample) \<and>
   rename srcExample ''/src'' ''lib''
   = (Inr True,
      \<lparr>workspace = VFolder ''r'' ''workspace'' ''/''
         [VFolder ''s'' ''lib'' ''/lib'' [VFile ''a'' ''a.py'' ''/src/a.py'' Python ''pass'' True]],
       localStorage = Some (VFolder ''r'' ''workspace'' ''/''
         [VFolder ''s'' ''lib'' ''/lib'' [VFile ''a'' ''a.py'' ''/src/a.py'' Python ''pass'' True]]),
       quota_exceeded = False\<rparr>) \<and>
   findItemByPath ''/lib/a.py'' (workspace (snd (rename srcExample ''/src'' ''lib''))) = None \<and>
   \<not> wfRoot (workspace (snd (rename srcExample ''/src'' ''lib'')))"
  by (simp add: srcExample_def rename_def findParentFolder_def parentPathOf_def substring_def
      lastIndexOf_def mutateItemByPath_def renameItem_def saveWorkspace_def Let_def wfRoot_def
      childPath_def)

section \<open>Renaming the root\<close>

text \<open>
  Claim C2. \<open>rename('/', 'x')\<close> on the default workspace returns true and leaves the
  root folder with name \<open>x\<close> and path \<open>/x\<close>; afterwards no node has the path \<open>/\<close>.
  \<open>findParentFolder('/')\<close> resolves the root as its own parent, so nothing stops
  the rename. \<open>delete('/')\<close> on the default workspace does return false and changes
  nothing.
\<close>

theorem rename_root_changes_root:
  "fst (rename freshService ''/'' ''x'') = Inr True \<and>
   name (workspace (snd (rename freshService ''/'' ''x''))) = ''x'' \<and>
   path (workspace (snd (rename freshService ''/'' ''x''))) = ''/x'' \<and>
   findItemByPath ''/'' (workspace (snd (rename freshService ''/'' ''x''))) = None \<and>
   delete freshService ''/'' = (False, freshService)"
proof -
  have d: "delete freshService ''/'' = (False, freshService)"
    by (simp add: delete_def findParentFolder_def parentPathOf_def substring_def
        lastIndexOf_def Let_def freshService_def createDefaultWorkspace_def)
  have r: "fst (rename freshService ''/'' ''x'') = Inr True \<and>
   name (workspace (snd (rename freshService ''/'' ''x''))) = ''x'' \<and>
   path (workspace (snd (rename freshService ''/'' ''x''))) = ''/x'' \<and>
   findItemByPath ''/'' (workspace (snd (rename freshService ''/'' ''x''))) = None"
    by (simp add: freshService_def createDefaultWorkspace_def rename_def findParentFolder_def
      parentPathOf_def substring_def lastIndexOf_def mutateItemByPath_def renameItem_def
      saveWorkspace_def Let_def)
  from d r show ?thesis by blast
qed

section \<open>Sibling names after a folder rename\<close>

text \<open>
  Claim C3. From the default workspace, renaming \<open>/src\<close> to \<open>lib\<close>, creating a new
  folder \<open>src\<close> under the root and renaming \<open>/src/main.cpp\<close> to \<open>main.py\<close> all
  succeed, and the folder \<open>/lib\<close> ends with two children named \<open>main.py\<close>: the
  file is found through its stale path, while the collision check runs on the
  children of the new, empty folder \<open>/src\<close>.
\<close>

theorem rename_duplicates_sibling_name:
  "fst (rename freshService ''/src'' ''lib'') = Inr True \<and>
   fst (createFolder (snd (rename freshService ''/src'' ''lib'')) ''id6'' ''/'' ''src'')
     = Inr (Some (VFolder ''id6'' ''src'' ''/src'' [])) \<and>
   fst (rename
          (snd (createFolder (snd (rename freshService ''/src'' ''lib'')) ''id6'' ''/'' ''src''))
          ''/src/main.cpp'' ''main.py'') = Inr True \<and>
   map name
     (list_items
        (snd (rename
           (snd (createFolder (snd (rename freshService ''/src'' ''lib'')) ''id6'' ''/'' ''src''))
           ''/src/main.cpp'' ''main.py''))
        ''/lib'') = [''main.py'', ''main.py'']"
  by (simp add: freshService_def createDefaultWorkspace_def rename_def createFolder_def
      findParentFolder_def parentPathOf_def substring_def lastIndexOf_def mutateItemByPath_def
      renameItem_def saveWorkspace_def push_def childPath_def list_items_def Let_def)

text \<open>
  The collision checks themselves: a create whose target folder has a child of
  the given name, and in a well-formed tree a rename to the name of a sibling,
  return the error with the service as it was.
\<close>

lemma createFile_collision:
  "findItemByPath parentPath (workspace st) = Some parent \<Longrightarrow> is_VFolder parent \<Longrightarrow>
   nm \<in> set (map name (children parent)) \<Longrightarrow>
   createFile st newId parentPath nm lang =
     (Inl (Error (''File '' @ dquote @ nm @ dquote @ '' already exists in this folder'')), st)"
  by (auto simp: createFile_def)

lemma createFolder_collision:
  "findItemByPath parentPath (workspace st) = Some parent \<Longrightarrow> is_VFolder parent \<Longrightarrow>
   nm \<in> set (map name (children parent)) \<Longrightarrow>
   createFolder st newId parentPath nm =
     (Inl (Error (''Folder '' @ dquote @ nm @ dquote @ '' already exists in this folder'')), st)"
  by (auto simp: createFolder_def)

lemma rename_collision:
  assumes "wfRoot (workspace st)" "findItemByPath p (workspace st) = Some item" "p \<noteq> ''/''"
    and "findParentFolder p (workspace st) = Some parent"
    and "newName \<in> set (map name (children parent))" "newName \<noteq> name item"
  shows "rename st p newName =
     (Inl (Error (dquote @ newName @ dquote @ '' already exists in this folder'')), st)"
proof -
  from resolve_parent[OF assms(1,2,3)] obtain parent' where
    par: "findItemByPath (parentPathOf p) (workspace st) = Some parent'" "is_VFolder parent'"
         "item \<in> set (children parent')" "wfList (path parent') (children parent')"
         "p = childPath (path parent') (name item)"
    by blast
  have pe: "parent' = parent" using par(1,2) assms(4) by (simp add: findParentFolder_def)
  from assms(5) obtain child where c: "child \<in> set (children parent)" "name child = newName"
    by auto
  have "path child = childPath (path parent) (name child)"
    using wfNode_path[OF wfList_mem[OF par(4)]] c(1) pe by simp
  then have "path child \<noteq> p"
    using par(5) pe c(2) assms(6) by (simp add: childPath_base)
  then have "\<exists>child\<in>set (children parent). name child = newName \<and> path child \<noteq> p"
    using c by blast
  then show ?thesis using assms(2,4) by (simp add: rename_def)
qed

section \<open>Renaming a node to its own name\<close>

text \<open>
  Claim C10, as the claim states it, fails at the root and at a node whose stored
  path is stale: on the default workspace \<open>rename('/', 'workspace')\<close> returns true
  and moves the root to the path \<open>/workspace\<close>; and after \<open>/src\<close> was renamed to
  \<open>lib\<close>, the file still found at \<open>/src/main.py\<close> cannot be renamed to
  \<open>main.py\<close>: the call returns false.
\<close>

theorem rename_same_name_counterexample:
  "findItemByPath ''/'' (workspace freshService) = Some (workspace freshService) \<and>
   name (workspace freshService) = ''workspace'' \<and>
   fst (rename freshService ''/'' ''workspace'') = Inr True \<and>
   path (workspace (snd (rename freshService ''/'' ''workspace''))) = ''/workspace'' \<and>
   findItemByPath ''/src/main.py'' (workspace (snd (rename freshService ''/src'' ''lib''))) =
     Some (VFile ''id3'' ''main.py'' ''/src/main.py'' Python (DEFAULT_CODE Python) True) \<and>
   fst (rename (snd (rename freshService ''/src'' ''lib'')) ''/src/main.py'' ''main.py'') = Inr False"
  by (simp add: freshService_def createDefaultWorkspace_def rename_def findParentFolder_def
      parentPathOf_def substring_def lastIndexOf_def mutateItemByPath_def renameItem_def
      saveWorkspace_def Let_def)

text \<open>
  Claim C10, amended. In a well-formed tree, renaming any node but the root to the
  name it has returns true: the only child of its parent with that name is the
  node itself, which the collision check passes over by its path. A folder is
  left as it was. Of a file only the language changes: it becomes the language of
  the extension (cpp when the extension is not recognised), whatever language the
  file was created with.
\<close>

theorem rename_same_name:
  assumes wf: "wfRoot (workspace st)"
    and fi: "findItemByPath p (workspace st) = Some item"
    and np: "p \<noteq> ''/''"
  shows "fst (rename st p (name item)) = Inr True \<and>
         (is_VFolder item \<longrightarrow> workspace (snd (rename st p (name item))) = workspace st) \<and>
         (is_VFile item \<longrightarrow>
            (\<exists>pre post.
               flatten (workspace st) = pre @ (item, 0) # post \<and>
               list_all (\<lambda>e. path (fst e) \<noteq> p) pre \<and>
               flatten (workspace (snd (rename st p (name item)))) =
                 pre @ (VFile (node_id item) (name item) (path item)
                          (getLanguageFromExtension (name item)) (content item) (isSaved item), 0)
                     # post))"
proof -
  from resolve_parent[OF wf fi np] obtain parent where
    par: "findItemByPath (parentPathOf p) (workspace st) = Some parent" "is_VFolder parent"
         "item \<in> set (children parent)" "wfList (path parent) (children parent)"
         "p = childPath (path parent) (name item)"
    by blast
  have fp: "findParentFolder p (workspace st) = Some parent"
    using par(1,2) by (simp add: findParentFolder_def)
  have sl: "CHR ''/'' \<notin> set (name item)"
    using wfNode_path[OF wfList_mem[OF par(4,3)]] by simp
  have nocol: "\<not> (\<exists>child\<in>set (children parent). name child = name item \<and> path child \<noteq> p)"
  proof
    assume "\<exists>child\<in>set (children parent). name child = name item \<and> path child \<noteq> p"
    then obtain child where c: "child \<in> set (children parent)" "name child = name item"
      "path child \<noteq> p" by blast
    have "path child = childPath (path parent) (name child)"
      using wfNode_path[OF wfList_mem[OF par(4) c(1)]] by simp
    then show False using c(2,3) par(5) by simp
  qed
  have newPath: "substring p 0 (lastIndexOf CHR ''/'' p + 1) @ name item = p"
    unfolding par(5) using newPath_childPath[OF sl] .
  have ip: "path item = p"
    using fi find_Some_mem[of "\<lambda>x. path x = p" "nodes (workspace st)" item]
    by (simp add: find_nodes)
  define f where "f = renameItem (name item) p"
  have res: "rename st p (name item) =
     (Inr True, saveWorkspace (st\<lparr>workspace := mutateItemByPath p f (workspace st)\<rparr>))"
    using fi fp nocol newPath by (simp add: rename_def Let_def f_def)
  have ws: "workspace (snd (rename st p (name item))) = mutateItemByPath p f (workspace st)"
    unfolding res by (simp add: saveWorkspace_def)
  show ?thesis
  proof (intro conjI impI)
    show "fst (rename st p (name item)) = Inr True" unfolding res by simp
  next
    assume "is_VFolder item"
    then have "f item = item" using ip by (cases item) (simp_all add: f_def renameItem_def)
    from update_id(1)[where f = f, OF fi this]
    show "workspace (snd (rename st p (name item))) = workspace st"
      unfolding ws by (simp add: mutateItemByPath_def)
  next
    assume isf: "is_VFile item"
    from update_flatten(1)[of f, OF _ fi] subnodes_renameItem
    obtain pre post t' where
      h: "updateItemByPath p f (workspace st) = Some t'"
         "flatten (workspace st) = pre @ entry item # post"
         "flatten t' = pre @ entry (f item) # post"
         "list_all (\<lambda>e. path (fst e) \<noteq> p) pre"
      unfolding f_def by blast
    have e1: "entry item = (item, 0)"
      using isf by (cases item) (simp_all add: entry_def)
    have e2: "entry (f item) =
        (VFile (node_id item) (name item) (path item)
           (getLanguageFromExtension (name item)) (content item) (isSaved item), 0)"
      using isf ip by (cases item) (simp_all add: entry_def f_def renameItem_def)
    have "workspace (snd (rename st p (name item))) = t'"
      unfolding ws using h(1) by (simp add: mutateItemByPath_def)
    then show "\<exists>pre post.
               flatten (workspace st) = pre @ (item, 0) # post \<and>
               list_all (\<lambda>e. path (fst e) \<noteq> p) pre \<and>
               flatten (workspace (snd (rename st p (name item)))) =
                 pre @ (VFile (node_id item) (name item) (path item)
                          (getLanguageFromExtension (name item)) (content item) (isSaved item), 0)
                     # post"
      using h(2,3,4) e1 e2 by auto
  qed
qed

theorem rename_same_name_witness:
  "wfRoot (workspace overriddenService) \<and>
   findItemByPath ''/notes.txt'' (workspace overriddenService) =
     Some (VFile ''id6'' ''notes.txt'' ''/notes.txt'' Python (DEFAULT_CODE Python) False) \<and>
   fst (rename overriddenService ''/notes.txt'' ''notes.txt'') = Inr True \<and>
   findItemByPath ''/notes.txt''
     (workspace (snd (rename overriddenService ''/notes.txt'' ''notes.txt''))) =
     Some (VFile ''id6'' ''notes.txt'' ''/notes.txt'' Cpp (DEFAULT_CODE Python) False) \<and>
   fst (rename overriddenService ''/src'' ''src'') = Inr True \<and>
   workspace (snd (rename overriddenService ''/src'' ''src'')) = workspace overriddenService"
proof -
  define src where "src = VFolder ''id1'' ''src'' ''/src''
     [VFile ''id2'' ''main.cpp'' ''/src/main.cpp'' Cpp (DEFAULT_CODE Cpp) True,
      VFile ''id3'' ''main.py'' ''/src/main.py'' Python (DEFAULT_CODE Python) True]"
  define memo where
    "memo = VFile ''id6'' ''notes.txt'' ''/notes.txt'' Python (DEFAULT_CODE Python) False"
  have ws: "workspace overriddenService = VFolder ''id5'' ''workspace'' ''/''
     [src, VFile ''id4'' ''README.md'' ''/README.md'' Cpp
        (''# Welcome to Strike IDE'' @ nl @ nl @
         ''Start coding by selecting a file from the explorer or creating a new one!'') True,
      memo]"
    by (simp add: overriddenService_def freshService_def createDefaultWorkspace_def
        createFile_def mutateItemByPath_def push_def childPath_def saveWorkspace_def Let_def
        src_def memo_def)
  have wf: "wfRoot (workspace overriddenService)"
    unfolding ws by (simp add: wfRoot_def childPath_def src_def memo_def)
  have f1: "findItemByPath ''/notes.txt'' (workspace overriddenService) = Some memo"
    unfolding ws by (simp add: src_def memo_def)
  have f2: "findItemByPath ''/src'' (workspace overriddenService) = Some src"
    unfolding ws by (simp add: src_def)
  have n1: "''/notes.txt'' \<noteq> ''/''" and n2: "''/src'' \<noteq> ''/''" by simp_all
  have nn: "name memo = ''notes.txt''" "is_VFile memo" and ns: "name src = ''src''" "is_VFolder src"
    by (simp_all add: memo_def src_def)
  from rename_same_name[OF wf f1 n1] nn
  have a: "fst (rename overriddenService ''/notes.txt'' ''notes.txt'') = Inr True" by simp
  from rename_same_name[OF wf f2 n2] ns
  have b: "fst (rename overriddenService ''/src'' ''src'') = Inr True"
    and c: "workspace (snd (rename overriddenService ''/src'' ''src'')) = workspace overriddenService"
    by simp_all
  have d: "findItemByPath ''/notes.txt''
     (workspace (snd (rename overriddenService ''/notes.txt'' ''notes.txt''))) =
     Some (VFile ''id6'' ''notes.txt'' ''/notes.txt'' Cpp (DEFAULT_CODE Python) False)"
    by (simp add: rename_def ws findParentFolder_def parentPathOf_def substring_def
        lastIndexOf_def mutateItemByPath_def renameItem_def saveWorkspace_def Let_def
        src_def memo_def getLanguageFromExtension_def split_pop_def toLowerCase_def
        toLowerChar_def)
  from wf f1 a b c d show ?thesis unfolding memo_def by blast
qed

section \<open>Closing a tab (the IDE component)\<close>

lemma findIndex_takeWhile:
  "\<exists>x\<in>set xs. P x \<Longrightarrow> findIndex P xs = int (length (takeWhile (\<lambda>x. \<not> P x) xs))"
proof (induction xs)
  case Nil
  then show ?case by simp
next
  case (Cons a xs)
  show ?case
  proof (cases "P a")
    case True
    then show ?thesis by simp
  next
    case False
    then have "\<exists>x\<in>set xs. P x" using Cons.prems by auto
    then have "findIndex P xs = int (length (takeWhile (\<lambda>x. \<not> P x) xs))" by (rule Cons.IH)
    then show ?thesis using False by (simp add: Let_def)
  qed
qed

lemma takeWhile_less:
  "\<exists>x\<in>set xs. \<not> Q x \<Longrightarrow> length (takeWhile Q xs) < length xs"
  by (induction xs) auto

lemma filter_first:
  "\<exists>x\<in>set xs. \<not> Q x \<Longrightarrow>
     filter Q xs = take (length (takeWhile Q xs)) xs @
                   filter Q (drop (Suc (length (takeWhile Q xs))) xs)"
proof (induction xs)
  case Nil
  then show ?case by simp
next
  case (Cons a xs)
  show ?case
  proof (cases "Q a")
    case True
    then have "\<exists>x\<in>set xs. \<not> Q x" using Cons.prems by auto
    from Cons.IH[OF this] show ?thesis using True by simp
  next
    case False
    then show ?thesis by simp
  qed
qed

lemma filter_distinct_first:
  assumes "distinct (map f xs)" "v \<in> set (map f xs)"
  shows "filter (\<lambda>x. f x \<noteq> v) xs =
           take (length (takeWhile (\<lambda>x. f x \<noteq> v) xs)) xs @
           drop (Suc (length (takeWhile (\<lambda>x. f x \<noteq> v) xs))) xs"
  using assms
proof (induction xs)
  case Nil
  then show ?case by simp
next
  case (Cons a xs)
  show ?case
  proof (cases "f a = v")
    case True
    have "f a \<notin> f ` set xs" using Cons.prems(1) by simp
    then have "\<forall>x\<in>set xs. f x \<noteq> v" using True by (metis imageI)
    then have "filter (\<lambda>x. f x \<noteq> v) xs = xs" by (simp add: filter_id_conv)
    then show ?thesis using True by simp
  next
    case False
    then have "v \<in> set (map f xs)" using Cons.prems(2) by auto
    then show ?thesis using False Cons.IH Cons.prems(1) by simp
  qed
qed

text \<open>
  Claim C9, as the claim states it, fails when two tabs carry the same id. That
  happens when a file is edited (its tab becomes a copy of the node), renamed,
  and selected again: the lookup by path finds no tab and the node is appended.
  With the tabs \<open>a, b, c, a'\<close>, where \<open>a\<close> and \<open>a'\<close> have the id of the active tab,
  closing \<open>a'\<close> removes both \<open>a\<close> and \<open>a'\<close> and makes \<open>b\<close> active, the tab now at the
  index of the first tab with that id. With the tabs \<open>a, a'\<close>, closing \<open>a'\<close> leaves
  no tab and no active tab, although a tab stood at the previous index.
\<close>

theorem handleTabClose_counterexample:
  "handleTabClose
     \<lparr>openTabs = [VFile ''a'' ''a.c'' ''/a.c'' C ''x'' False, VFile ''b'' ''b.c'' ''/b.c'' C [] True,
                  VFile ''c'' ''c.c'' ''/c.c'' C [] True, VFile ''a'' ''z.c'' ''/z.c'' C [] True],
      activeTabId = Some ''a''\<rparr> (VFile ''a'' ''z.c'' ''/z.c'' C [] True)
   = \<lparr>openTabs = [VFile ''b'' ''b.c'' ''/b.c'' C [] True, VFile ''c'' ''c.c'' ''/c.c'' C [] True],
      activeTabId = Some ''b''\<rparr> \<and>
   handleTabClose
     \<lparr>openTabs = [VFile ''a'' ''a.c'' ''/a.c'' C ''x'' False, VFile ''a'' ''z.c'' ''/z.c'' C [] True],
      activeTabId = Some ''a''\<rparr> (VFile ''a'' ''z.c'' ''/z.c'' C [] True)
   = \<lparr>openTabs = [], activeTabId = None\<rparr>"
  by (simp add: handleTabClose_def at_index_def Let_def)

text \<open>
  Claim C9, amended. Closing a file that has a tab, the ids of the tabs not
  empty, removes every tab with the id of the file and keeps the other tabs in
  order: the tabs before the first tab with that id stay where they are, and when
  the ids are distinct the tab of the file is the one tab removed. Let \<open>i\<close> be the
  index of the first tab with that id. If the id was the active one, the active
  tab becomes the tab now at index \<open>i\<close>, else the one at index \<open>i - 1\<close>, else none;
  if it was not, the active tab stays.
\<close>

theorem handleTabClose_spec:
  assumes opened: "node_id fl \<in> set (map node_id tabs)"
    and ids: "[] \<notin> set (map node_id tabs)"
  shows
    "(let i = length (takeWhile (\<lambda>tab. node_id tab \<noteq> node_id fl) tabs);
          newTabs = filter (\<lambda>tab. node_id tab \<noteq> node_id fl) tabs
      in i < length tabs \<and> node_id (tabs ! i) = node_id fl \<and>
         openTabs (handleTabClose \<lparr>openTabs = tabs, activeTabId = active\<rparr> fl) = newTabs \<and>
         take i newTabs = take i tabs \<and>
         (distinct (map node_id tabs) \<longrightarrow> newTabs = take i tabs @ drop (Suc i) tabs) \<and>
         activeTabId (handleTabClose \<lparr>openTabs = tabs, activeTabId = active\<rparr> fl)
           = (if active = Some (node_id fl)
              then (if i < length newTabs then Some (node_id (newTabs ! i))
                    else if 0 < i then Some (node_id (newTabs ! (i - 1)))
                    else None)
              else active))"
proof -
  define Q where "Q = (\<lambda>tab. node_id tab \<noteq> node_id fl)"
  define i where "i = length (takeWhile Q tabs)"
  define new where "new = filter Q tabs"
  have ex: "\<exists>x\<in>set tabs. \<not> Q x" using opened by (auto simp: Q_def)
  have ilt: "i < length tabs"
    unfolding i_def using ex by (rule takeWhile_less)
  have hit: "node_id (tabs ! i) = node_id fl"
    using nth_length_takeWhile[of Q tabs] ilt unfolding i_def Q_def by simp
  have split: "new = take i tabs @ filter Q (drop (Suc i) tabs)"
    unfolding new_def i_def using filter_first[OF ex] .
  have li: "length (take i tabs) = i" using ilt by simp
  have tk: "take i new = take i tabs"
    unfolding split using li by simp
  have ge: "i \<le> length new" unfolding split using li by simp
  have dis: "distinct (map node_id tabs) \<longrightarrow> new = take i tabs @ drop (Suc i) tabs"
    unfolding new_def i_def Q_def using filter_distinct_first[of node_id tabs "node_id fl"] opened
    by blast
  have ex': "\<exists>x\<in>set tabs. node_id x = node_id fl" using ex by (simp add: Q_def)
  have idx: "findIndex (\<lambda>tab. node_id tab = node_id fl) tabs = int i"
    unfolding i_def Q_def by (rule findIndex_takeWhile[OF ex'])
  have sub: "set new \<subseteq> set tabs" unfolding new_def by simp
  have ne: "node_id t \<noteq> []" if tin: "t \<in> set new" for t
  proof -
    have "t \<in> set tabs" using tin sub by blast
    then have "node_id t \<in> set (map node_id tabs)" by simp
    then show ?thesis using ids by metis
  qed
  have flt: "filter (\<lambda>tab. node_id tab \<noteq> node_id fl) tabs = new"
    by (simp add: new_def Q_def)
  have eq: "handleTabClose \<lparr>openTabs = tabs, activeTabId = active\<rparr> fl =
    (if active = Some (node_id fl)
     then \<lparr>openTabs = new,
           activeTabId =
             (case (case at_index new (int i) of Some t \<Rightarrow> Some t
                    | None \<Rightarrow> at_index new (int i - 1)) of
                Some t \<Rightarrow> if node_id t = [] then None else Some (node_id t)
              | None \<Rightarrow> None)\<rparr>
     else \<lparr>openTabs = new, activeTabId = active\<rparr>)"
    by (simp add: handleTabClose_def flt idx Let_def)
  have nxt: "(case (case at_index new (int i) of Some t \<Rightarrow> Some t
                    | None \<Rightarrow> at_index new (int i - 1)) of
                Some t \<Rightarrow> if node_id t = [] then None else Some (node_id t)
              | None \<Rightarrow> None) =
             (if i < length new then Some (node_id (new ! i))
              else if 0 < i then Some (node_id (new ! (i - 1)))
              else None)"
  proof (cases "i < length new")
    case a: True
    then have "new ! i \<in> set new" by (rule nth_mem)
    then have "node_id (new ! i) \<noteq> []" by (rule ne)
    then show ?thesis using a by (simp add: at_index_def)
  next
    case b: False
    show ?thesis
    proof (cases "0 < i")
      case c: True
      then have l: "i - 1 < length new" using ge by linarith
      then have "new ! (i - 1) \<in> set new" by (rule nth_mem)
      then have "node_id (new ! (i - 1)) \<noteq> []" by (rule ne)
      moreover have "nat (int i - 1) = i - 1" by simp
      moreover have "0 \<le> int i - 1" using c by simp
      ultimately show ?thesis using b c l by (simp add: at_index_def)
    next
      case d: False
      then have "\<not> 0 \<le> int i - 1" by simp
      then show ?thesis using b d by (simp add: at_index_def)
    qed
  qed
  have "i < length tabs \<and> node_id (tabs ! i) = node_id fl \<and>
        openTabs (handleTabClose \<lparr>openTabs = tabs, activeTabId = active\<rparr> fl) = new \<and>
        take i new = take i tabs \<and>
        (distinct (map node_id tabs) \<longrightarrow> new = take i tabs @ drop (Suc i) tabs) \<and>
        activeTabId (handleTabClose \<lparr>openTabs = tabs, activeTabId = active\<rparr> fl)
           = (if active = Some (node_id fl)
              then (if i < length new then Some (node_id (new ! i))
                    else if 0 < i then Some (node_id (new ! (i - 1)))
                    else None)
              else active)"
    unfolding eq nxt using ilt hit tk dis by simp
  then show ?thesis unfolding Let_def new_def i_def Q_def .
qed

theorem handleTabClose_spec_witness:
  "handleTabClose
     \<lparr>openTabs = [VFile ''a'' ''a.c'' ''/a.c'' C [] True, VFile ''b'' ''b.c'' ''/b.c'' C [] True,
                  VFile ''c'' ''c.c'' ''/c.c'' C [] True],
      activeTabId = Some ''b''\<rparr> (VFile ''b'' ''b.c'' ''/b.c'' C [] True)
   = \<lparr>openTabs = [VFile ''a'' ''a.c'' ''/a.c'' C [] True, VFile ''c'' ''c.c'' ''/c.c'' C [] True],
      activeTabId = Some ''c''\<rparr> \<and>
   activeTabId (handleTabClose
     \<lparr>openTabs = [VFile ''a'' ''a.c'' ''/a.c'' C [] True, VFile ''b'' ''b.c'' ''/b.c'' C [] True],
      activeTabId = Some ''b''\<rparr> (VFile ''b'' ''b.c'' ''/b.c'' C [] True)) = Some ''a'' \<and>
   activeTabId (handleTabClose
     \<lparr>openTabs = [VFile ''a'' ''a.c'' ''/a.c'' C [] True], activeTabId = Some ''a''\<rparr>
     (VFile ''a'' ''a.c'' ''/a.c'' C [] True)) = None \<and>
   activeTabId (handleTabClose
     \<lparr>openTabs = [VFile ''a'' ''a.c'' ''/a.c'' C [] True, VFile ''b'' ''b.c'' ''/b.c'' C [] True],
      activeTabId = Some ''a''\<rparr> (VFile ''b'' ''b.c'' ''/b.c'' C [] True)) = Some ''a'' \<and>
   handleTabClose
     \<lparr>openTabs = [VFile ''b'' ''b.c'' ''/b.c'' C [] True, VFile ''a'' ''a.c'' ''/a.c'' C ''x'' False,
                  VFile ''c'' ''c.c'' ''/c.c'' C [] True, VFile ''a'' ''z.c'' ''/z.c'' C [] True],
      activeTabId = Some ''a''\<rparr> (VFile ''a'' ''z.c'' ''/z.c'' C [] True)
   = \<lparr>openTabs = [VFile ''b'' ''b.c'' ''/b.c'' C [] True, VFile ''c'' ''c.c'' ''/c.c'' C [] True],
      activeTabId = Some ''c''\<rparr>"
proof -
  let ?a = "VFile ''a'' ''a.c'' ''/a.c'' C [] True"
  let ?b = "VFile ''b'' ''b.c'' ''/b.c'' C [] True"
  let ?c = "VFile ''c'' ''c.c'' ''/c.c'' C [] True"
  let ?e = "VFile ''a'' ''a.c'' ''/a.c'' C ''x'' False"
  let ?z = "VFile ''a'' ''z.c'' ''/z.c'' C [] True"
  have 1: "handleTabClose \<lparr>openTabs = [?a, ?b, ?c], activeTabId = Some ''b''\<rparr> ?b
     = \<lparr>openTabs = [?a, ?c], activeTabId = Some ''c''\<rparr>"
    using handleTabClose_spec[where fl = ?b and tabs = "[?a, ?b, ?c]" and active = "Some ''b''"]
    by (simp add: Let_def TabState.equality)
  have 2: "activeTabId (handleTabClose \<lparr>openTabs = [?a, ?b], activeTabId = Some ''b''\<rparr> ?b) = Some ''a''"
    using handleTabClose_spec[where fl = ?b and tabs = "[?a, ?b]" and active = "Some ''b''"]
    by (simp add: Let_def)
  have 3: "activeTabId (handleTabClose \<lparr>openTabs = [?a], activeTabId = Some ''a''\<rparr> ?a) = None"
    using handleTabClose_spec[where fl = ?a and tabs = "[?a]" and active = "Some ''a''"]
    by (simp add: Let_def)
  have 4: "activeTabId (handleTabClose \<lparr>openTabs = [?a, ?b], activeTabId = Some ''a''\<rparr> ?b) = Some ''a''"
    using handleTabClose_spec[where fl = ?b and tabs = "[?a, ?b]" and active = "Some ''a''"]
    by (simp add: Let_def)
  have 5: "handleTabClose \<lparr>openTabs = [?b, ?e, ?c, ?z], activeTabId = Some ''a''\<rparr> ?z
     = \<lparr>openTabs = [?b, ?c], activeTabId = Some ''c''\<rparr>"
    using handleTabClose_spec[where fl = ?z and tabs = "[?b, ?e, ?c, ?z]" and active = "Some ''a''"]
    by (simp add: Let_def TabState.equality)
  from 1 2 3 4 5 show ?thesis by blast
qed

section \<open>Creating an item from the explorer (FileExplorer)\<close>

lemma createFile_language:
  "createFile st newId parentPath nm lang = (Inr (Some fl), st') \<Longrightarrow>
     fl = VFile newId nm (childPath parentPath nm)
            (case lang of Some l \<Rightarrow> l | None \<Rightarrow> getLanguageFromExtension nm)
            (DEFAULT_CODE (case lang of Some l \<Rightarrow> l | None \<Rightarrow> getLanguageFromExtension nm)) False"
  by (auto simp: createFile_def Let_def split: option.splits if_splits)

text \<open>
  Claim C4. A file that \<open>createFile\<close> creates for the name \<open>main.py\<close> with no
  language given has the language python. In the explorer, a file name whose
  extension is not in the allowed list, such as \<open>x.unknown\<close>, is answered with the
  validation toast and nothing is created; every file created there has an allowed
  extension and the language of that extension.
\<close>

theorem create_language_inference:
  "(\<forall>st newId parentPath fl st'.
      createFile st newId parentPath ''main.py'' None = (Inr (Some fl), st') \<longrightarrow>
      name fl = ''main.py'' \<and> language fl = Python) \<and>
   (\<forall>st newId parentPath nm.
      toLowerCase (split_pop CHR ''.'' nm) \<notin> set allowedExtensions \<longrightarrow> trim nm \<noteq> [] \<longrightarrow>
      handleCreateItem st newId (Some (parentPath, FileItem)) nm
        = (Some (ToastError extensionError), None, st)) \<and>
   (\<forall>st newId parentPath nm t fl st'.
      handleCreateItem st newId (Some (parentPath, FileItem)) nm = (t, Some fl, st') \<longrightarrow>
      toLowerCase (split_pop CHR ''.'' nm) \<in> set allowedExtensions \<and>
      language fl = getLanguageFromExtension nm) \<and>
   (\<forall>st newId parentPath.
      handleCreateItem st newId (Some (parentPath, FileItem)) ''x.unknown''
        = (Some (ToastError extensionError), None, st))"
proof (intro conjI allI impI)
  fix st newId parentPath fl st'
  assume "createFile st newId parentPath ''main.py'' None = (Inr (Some fl), st')"
  from createFile_language[OF this]
  show "name fl = ''main.py''" and "language fl = Python"
    by (simp_all add: getLanguageFromExtension_def split_pop_def toLowerCase_def toLowerChar_def)
next
  fix st :: WorkspaceService and newId parentPath nm
  assume "toLowerCase (split_pop CHR ''.'' nm) \<notin> set allowedExtensions" "trim nm \<noteq> []"
  then show "handleCreateItem st newId (Some (parentPath, FileItem)) nm
        = (Some (ToastError extensionError), None, st)"
    by (simp add: handleCreateItem_def Let_def)
next
  fix st newId parentPath nm t fl st'
  assume h: "handleCreateItem st newId (Some (parentPath, FileItem)) nm = (t, Some fl, st')"
  then show "toLowerCase (split_pop CHR ''.'' nm) \<in> set allowedExtensions"
    by (auto simp: handleCreateItem_def Let_def split: if_splits prod.splits sum.splits error.splits option.splits)
  from h obtain st'' where "createFile st newId parentPath nm (Some (getLanguageFromExtension nm)) = (Inr (Some fl), st'')"
    by (auto simp: handleCreateItem_def Let_def split: if_splits prod.splits sum.splits error.splits option.splits)
  from createFile_language[OF this] show "language fl = getLanguageFromExtension nm" by simp
next
  fix st :: WorkspaceService and newId parentPath
  show "handleCreateItem st newId (Some (parentPath, FileItem)) ''x.unknown''
        = (Some (ToastError extensionError), None, st)"
    by (simp add: handleCreateItem_def Let_def trim_def isWhiteSpace_def split_pop_def
        toLowerCase_def toLowerChar_def allowedExtensions_def)
qed

theorem create_language_inference_witness:
  "fst (createFile freshService ''id6'' ''/'' ''main.py'' None) =
     Inr (Some (VFile ''id6'' ''main.py'' ''/main.py'' Python (DEFAULT_CODE Python) False)) \<and>
   handleCreateItem freshService ''id6'' (Some (''/'', FileItem)) ''notes.txt''
     = (Some (ToastError extensionError), None, freshService) \<and>
   fst (snd (handleCreateItem freshService ''id6'' (Some (''/'', FileItem)) ''main.py''))
     = Some (VFile ''id6'' ''main.py'' ''/main.py'' Python (DEFAULT_CODE Python) False)"
proof -
  have a: "fst (createFile freshService ''id6'' ''/'' ''main.py'' None) =
     Inr (Some (VFile ''id6'' ''main.py'' ''/main.py'' Python (DEFAULT_CODE Python) False))"
    by (simp add: freshService_def createDefaultWorkspace_def createFile_def childPath_def
        getLanguageFromExtension_def split_pop_def toLowerCase_def toLowerChar_def Let_def)
  have e: "toLowerCase (split_pop CHR ''.'' ''notes.txt'') \<notin> set allowedExtensions"
    by (simp add: split_pop_def toLowerCase_def toLowerChar_def allowedExtensions_def)
  have t: "trim ''notes.txt'' \<noteq> []"
    by (simp add: trim_def isWhiteSpace_def)
  have b: "handleCreateItem freshService ''id6'' (Some (''/'', FileItem)) ''notes.txt''
     = (Some (ToastError extensionError), None, freshService)"
    using create_language_inference e t by blast
  have c: "fst (snd (handleCreateItem freshService ''id6'' (Some (''/'', FileItem)) ''main.py''))
     = Some (VFile ''id6'' ''main.py'' ''/main.py'' Python (DEFAULT_CODE Python) False)"
    by (simp add: freshService_def createDefaultWorkspace_def handleCreateItem_def createFile_def
        childPath_def getLanguageFromExtension_def split_pop_def toLowerCase_def toLowerChar_def
        trim_def isWhiteSpace_def allowedExtensions_def Let_def)
  from a b c show ?thesis by blast
qed

section \<open>In-process execution of JavaScript (services/codeExecutor)\<close>

lemma CaptureLog_neq: "CaptureLog s \<noteq> s"
  by (induction s) auto

text \<open>
  Claim C5. When \<open>eval\<close> returns, \<open>console.log\<close> is again what it was before the
  call. When \<open>eval\<close> throws, the handler assigns \<open>console.log\<close> to itself
  (\<open>originalLog\<close> is scoped to the \<open>try\<close> block), so \<open>console.log\<close> is what the
  evaluated code left: the capturing wrapper, unless the code replaced it, and
  not the original function.
\<close>

theorem executeJavaScript_sink:
  "(js_eval source (env\<lparr>console_log := CaptureLog (console_log env)\<rparr>) = (logs, Normal, env') \<longrightarrow>
      console_log (snd (executeJavaScript js_eval source env)) = console_log env) \<and>
   (js_eval source (env\<lparr>console_log := CaptureLog (console_log env)\<rparr>) = (logs, Throw m, env') \<longrightarrow>
      console_log (snd (executeJavaScript js_eval source env)) = console_log env' \<and>
      (console_log env' = CaptureLog (console_log env) \<longrightarrow>
         console_log (snd (executeJavaScript js_eval source env)) \<noteq> console_log env))"
  by (auto simp: executeJavaScript_def Let_def CaptureLog_neq split: option.splits)

theorem executeJavaScript_sink_witness:
  "executeJavaScript throwingEval ''undefinedFunction()'' \<lparr>console_log = NativeLog\<rparr> =
     (Inr \<lparr>output_text = ''undefinedFunction is not defined'',
           error = Some ''undefinedFunction is not defined'', success = False\<rparr>,
      \<lparr>console_log = CaptureLog NativeLog\<rparr>) \<and>
   console_log (snd (executeJavaScript throwingEval ''undefinedFunction()'' \<lparr>console_log = NativeLog\<rparr>))
     \<noteq> NativeLog \<and>
   console_log (snd (executeJavaScript throwingEval ''1 + 1'' \<lparr>console_log = NativeLog\<rparr>))
     = NativeLog"
proof -
  have t: "throwingEval ''undefinedFunction()''
             (\<lparr>console_log = NativeLog\<rparr>\<lparr>console_log := CaptureLog (console_log \<lparr>console_log = NativeLog\<rparr>)\<rparr>)
           = ([], Throw (Some ''undefinedFunction is not defined''), \<lparr>console_log = CaptureLog NativeLog\<rparr>)"
    by (simp add: throwingEval_def)
  have n: "throwingEval ''1 + 1''
             (\<lparr>console_log = NativeLog\<rparr>\<lparr>console_log := CaptureLog (console_log \<lparr>console_log = NativeLog\<rparr>)\<rparr>)
           = ([], Normal, \<lparr>console_log = CaptureLog NativeLog\<rparr>)"
    by (simp add: throwingEval_def)
  have a: "console_log (snd (executeJavaScript throwingEval ''undefinedFunction()'' \<lparr>console_log = NativeLog\<rparr>))
     \<noteq> NativeLog"
    using executeJavaScript_sink[of throwingEval "''undefinedFunction()''" "\<lparr>console_log = NativeLog\<rparr>"
        "[]" "\<lparr>console_log = CaptureLog NativeLog\<rparr>" "Some ''undefinedFunction is not defined''"] t
    by simp
  have b: "console_log (snd (executeJavaScript throwingEval ''1 + 1'' \<lparr>console_log = NativeLog\<rparr>))
     = NativeLog"
    using executeJavaScript_sink[of throwingEval "''1 + 1''" "\<lparr>console_log = NativeLog\<rparr>"
        "[]" "\<lparr>console_log = CaptureLog NativeLog\<rparr>"] n
    by simp
  have c: "executeJavaScript throwingEval ''undefinedFunction()'' \<lparr>console_log = NativeLog\<rparr> =
     (Inr \<lparr>output_text = ''undefinedFunction is not defined'',
           error = Some ''undefinedFunction is not defined'', success = False\<rparr>,
      \<lparr>console_log = CaptureLog NativeLog\<rparr>)"
    by (simp add: executeJavaScript_def throwingEval_def cleanJsError_def Let_def)
  from a b c show ?thesis by blast
qed

section \<open>The result of a remote execution\<close>

lemma replaceAll_lit_skip:
  "c \<noteq> a \<Longrightarrow>
     replaceAll (lit (a # pat)) rep pv (c # s) = c # replaceAll (lit (a # pat)) rep (Some c) s"
  by simp

lemma replaceAll_lit_prefix:
  "a \<notin> set pre \<Longrightarrow>
     \<exists>pv'. replaceAll (lit (a # pat)) rep pv (pre @ s) = pre @ replaceAll (lit (a # pat)) rep pv' s"
proof (induction pre arbitrary: pv)
  case Nil
  then show ?case by auto
next
  case (Cons c pre)
  then have "c \<noteq> a" "a \<notin> set pre" by auto
  from Cons.IH[OF this(2), of "Some c"] obtain pv' where
    "replaceAll (lit (a # pat)) rep (Some c) (pre @ s) = pre @ replaceAll (lit (a # pat)) rep pv' s"
    by blast
  then show ?case using \<open>c \<noteq> a\<close> by (auto simp del: lit.simps replaceAll.simps simp add: replaceAll_lit_skip)
qed

lemma replace_g_lit_prefix:
  "a \<notin> set pre \<Longrightarrow> \<exists>t. replace_g (lit (a # pat)) rep (pre @ s) = pre @ t"
  using replaceAll_lit_prefix[of a pre pat rep None s] by (auto simp: replace_g_def)

lemma decodeHtmlEntities_prefix:
  assumes "CHR ''&'' \<notin> set pre"
  shows "\<exists>t. decodeHtmlEntities (pre @ s) = pre @ t"
proof -
  obtain t1 where 1: "replace_g (lit ''&lt;'') ''<'' (pre @ s) = pre @ t1"
    using replace_g_lit_prefix[OF assms] by blast
  obtain t2 where 2: "replace_g (lit ''&gt;'') ''>'' (pre @ t1) = pre @ t2"
    using replace_g_lit_prefix[OF assms] by blast
  obtain t3 where 3: "replace_g (lit ''&quot;'') dquote (pre @ t2) = pre @ t3"
    using replace_g_lit_prefix[OF assms] by blast
  obtain t4 where 4: "replace_g (lit ''&#39;'') [CHR 0x27] (pre @ t3) = pre @ t4"
    using replace_g_lit_prefix[OF assms] by blast
  obtain t5 where 5: "replace_g (lit ''&amp;'') ''&'' (pre @ t4) = pre @ t5"
    using replace_g_lit_prefix[OF assms] by blast
  show ?thesis using 1 2 3 4 5 by (simp add: decodeHtmlEntities_def)
qed

text \<open>
  Claim C6, as the claim states it, fails when sanitising leaves nothing of the
  compile phase's stderr: for a stderr that holds only the line
  \<open>chmod: cannot access 'a.out': No such file or directory\<close> the output is
  \<open>Compilation failed - please check your code syntax\<close>.
\<close>

theorem compile_error_result_counterexample:
  "chmodNoise \<noteq> [] \<and>
   executeCode_response (compileFails chmodNoise) =
     \<lparr>output_text = ''Compilation failed - please check your code syntax'',
      error = Some ''Execution failed'', success = False\<rparr> \<and>
   \<not> prefix ''Compilation Error:'' (output_text (executeCode_response (compileFails chmodNoise)))"
  by code_simp

text \<open>
  Claim C6, amended. For a response whose compile phase has a non-empty stderr
  the result has \<open>success = false\<close> and does not depend on the run phase. Its
  output starts with \<open>Compilation Error:\<close> when \<open>cleanErrorMessage\<close> leaves some
  text of the stderr, and is \<open>Compilation failed - please check your code syntax\<close>
  when it leaves none.
\<close>

theorem compile_error_result:
  assumes "compile resp = Some c" and "stderr c = Some e" and "e \<noteq> []"
  shows "success (executeCode_response resp) = False \<and>
         error (executeCode_response resp) = Some ''Execution failed'' \<and>
         (cleanErrorMessage e \<noteq> [] \<longrightarrow>
            prefix ''Compilation Error:'' (output_text (executeCode_response resp))) \<and>
         (cleanErrorMessage e = [] \<longrightarrow>
            output_text (executeCode_response resp) =
              ''Compilation failed - please check your code syntax'') \<and>
         executeCode_response (resp\<lparr>run := r\<rparr>) = executeCode_response resp"
proof -
  have sel: "(case compile resp of
                 Some c \<Rightarrow> if truthy (stderr c) then stderr c else None
               | None \<Rightarrow> None) = Some e"
    using assms by (simp add: truthy_def)
  have sel': "(case compile (resp\<lparr>run := r\<rparr>) of
                 Some c \<Rightarrow> if truthy (stderr c) then stderr c else None
               | None \<Rightarrow> None) = Some e"
    using assms by (simp add: truthy_def)
  have indep: "executeCode_response (resp\<lparr>run := r\<rparr>) = executeCode_response resp"
    unfolding executeCode_response_def sel sel' by simp
  have succ: "success (executeCode_response resp) = False"
       "error (executeCode_response resp) = Some ''Execution failed''"
    unfolding executeCode_response_def sel by (simp_all add: Let_def)
  have empty: "output_text (executeCode_response resp) =
      ''Compilation failed - please check your code syntax''" if "cleanErrorMessage e = []"
  proof -
    have "decodeHtmlEntities ''Compilation failed - please check your code syntax'' =
        ''Compilation failed - please check your code syntax''"
      by (simp add: decodeHtmlEntities_def replace_g_def)
    then show ?thesis unfolding executeCode_response_def sel using that by (simp add: Let_def)
  qed
  have nonempty: "prefix ''Compilation Error:'' (output_text (executeCode_response resp))"
    if ne: "cleanErrorMessage e \<noteq> []"
  proof -
    define mainError where "mainError =
      (let errorLines = filter (\<lambda>line. str_includes line ''error:'')
                          (split_on CHR 0x0A (cleanErrorMessage e))
       in if length errorLines > 0 then hd errorLines else cleanErrorMessage e)"
    obtain t where t: "decodeHtmlEntities (''Compilation Error:'' @ (nl @ mainError)) =
        ''Compilation Error:'' @ t"
      using decodeHtmlEntities_prefix[of "''Compilation Error:''"] by auto
    have "output_text (executeCode_response resp) = ''Compilation Error:'' @ t"
      unfolding executeCode_response_def sel using ne t
      by (simp add: Let_def mainError_def del: split_on.simps)
    then show ?thesis by simp
  qed
  from indep succ empty nonempty show ?thesis by blast
qed

theorem compile_error_result_witness:
  "success (executeCode_response (compileFails missingSemicolon)) = False \<and>
   output_text (executeCode_response (compileFails missingSemicolon)) =
     ''Compilation Error:'' @ nl @
     ''error: expected '' @ squote @ '';'' @ squote @ '' before '' @ squote @ ''return'' @ squote \<and>
   prefix ''Compilation Error:'' (output_text (executeCode_response (compileFails missingSemicolon)))"
proof -
  have c: "cleanErrorMessage missingSemicolon \<noteq> []"
    by code_simp
  have m: "missingSemicolon \<noteq> []"
    by (simp add: missingSemicolon_def)
  have o: "output_text (executeCode_response (compileFails missingSemicolon)) =
     ''Compilation Error:'' @ nl @
     ''error: expected '' @ squote @ '';'' @ squote @ '' before '' @ squote @ ''return'' @ squote"
    by code_simp
  from compile_error_result[of "compileFails missingSemicolon"
      "\<lparr>stdout = Some [], stderr = Some missingSemicolon, code = ExitCode 1\<rparr>" missingSemicolon] c m
  have "success (executeCode_response (compileFails missingSemicolon)) = False \<and>
        prefix ''Compilation Error:'' (output_text (executeCode_response (compileFails missingSemicolon)))"
    by (simp add: compileFails_def)
  with o show ?thesis by blast
qed

end
